theory Spec2Isabelle
  imports Complex_Main "HOL-Library.Word" "HOL-Library.Signed_Division"
begin

unbundle bit_operations_syntax

chapter \<open>A shallow embedding of the mjs interpreter core\<close>

text \<open>
  The development follows the C++ sources: the source-position scanner and the
  recursive-descent parser of the parser translation unit, and the tagged value with its
  conversions of the value translation unit. Exceptions and failed assertions are values
  of an error type; loops are recursive functions.
\<close>

section \<open>Source positions\<close>

text \<open>
  The source text is a \<^verbatim>\<open>std::wstring_view\<close>; a code unit is modelled as a natural
  number. \<^verbatim>\<open>source_position\<close> is a pair of C++ \<^verbatim>\<open>int\<close>s; they are modelled as
  unbounded integers (texts stay far below \<open>2^31\<close> code units).
\<close>

type_synonym wchar = nat

definition LF :: wchar where "LF = 10"
definition CR :: wchar where "CR = 13"
definition TAB :: wchar where "TAB = 9"

record source_position =
  line :: int
  column :: int

text \<open>The failures of the functions modelled: a failed \<^verbatim>\<open>assert\<close>, and the exception
  that \<^verbatim>\<open>NOT_IMPLEMENTED\<close> throws.\<close>

datatype error = Assertion_Failed | Not_Implemented

definition tabstop :: int where "tabstop = 8"

text \<open>
  One iteration of the \<^verbatim>\<open>switch (t[i])\<close> in \<^verbatim>\<open>calc_source_position\<close>, on the triple
  \<open>(cr, lf, column)\<close>. The C++ \<^verbatim>\<open>%\<close> truncates towards zero: \<open>smod\<close>.
\<close>

definition position_step :: "wchar \<Rightarrow> int \<times> int \<times> int \<Rightarrow> int \<times> int \<times> int" where
  "position_step c st =
     (case st of (cr, lf, col) \<Rightarrow>
        if c = LF then (cr, lf + 1, 0)
        else if c = CR then (cr + 1, lf, 0)
        else if c = TAB then (cr, lf, col + (tabstop - (col smod tabstop)))
        else (cr, lf, col + 1))"

text \<open>The loop \<^verbatim>\<open>for (uint32_t i = start_pos; i < end_pos; ++i)\<close>.\<close>

function calc_loop :: "wchar list \<Rightarrow> nat \<Rightarrow> nat \<Rightarrow> int \<times> int \<times> int \<Rightarrow> int \<times> int \<times> int" where
  "calc_loop t i end_pos st =
     (if i < end_pos then calc_loop t (i + 1) end_pos (position_step (t ! i) st) else st)"
  by pat_completeness auto
termination
  by (relation "measure (\<lambda>(t, i, end_pos, st). end_pos - i)") auto

declare calc_loop.simps [simp del]

text \<open>
  \<^verbatim>\<open>calc_source_position\<close>: the assertion on the interval is a branch of the model, so
  that \<open>t ! i\<close> is only read inside the text.
\<close>

definition calc_source_position ::
    "wchar list \<Rightarrow> nat \<Rightarrow> nat \<Rightarrow> source_position \<Rightarrow> error + source_position" where
  "calc_source_position t start_pos end_pos start =
     (if \<not> (start_pos \<le> length t \<and> end_pos \<le> length t \<and> start_pos \<le> end_pos)
      then Inl Assertion_Failed
      else
        (case calc_loop t start_pos end_pos (line start - 1, line start - 1, column start - 1) of
           (cr, lf, col) \<Rightarrow> Inr \<lparr>line = 1 + max cr lf, column = 1 + col\<rparr>))"

text \<open>\<^verbatim>\<open>extend_to_positions\<close>: the start position from the beginning of the text, the end
  position continued from it.\<close>

definition extend_to_positions ::
    "wchar list \<Rightarrow> nat \<Rightarrow> nat \<Rightarrow> error + source_position \<times> source_position" where
  "extend_to_positions t start_pos end_pos =
     (case calc_source_position t 0 start_pos \<lparr>line = 1, column = 1\<rparr> of
        Inl e \<Rightarrow> Inl e
      | Inr start \<Rightarrow>
          (case calc_source_position t start_pos end_pos start of
             Inl e \<Rightarrow> Inl e
           | Inr end_p \<Rightarrow> Inr (start, end_p)))"

text \<open>The code units of the interval \<open>[start_pos, end_pos)\<close>.\<close>

definition interval :: "wchar list \<Rightarrow> nat \<Rightarrow> nat \<Rightarrow> wchar list" where
  "interval t start_pos end_pos = take (end_pos - start_pos) (drop start_pos t)"

text \<open>
  The specification's reading of line terminators, to compare the code with: LF, CR and
  the pair CR LF each count as one line terminator.
\<close>

fun line_terminators :: "wchar list \<Rightarrow> nat" where
  "line_terminators [] = 0"
| "line_terminators [c] = (if c = CR \<or> c = LF then 1 else 0)"
| "line_terminators (c # d # cs) =
     (if c = CR \<and> d = LF then Suc (line_terminators cs)
      else if c = CR \<or> c = LF then Suc (line_terminators (d # cs))
      else line_terminators (d # cs))"

text \<open>A CR that no LF follows, and an LF that no CR precedes.\<close>

fun lone_crs :: "wchar list \<Rightarrow> nat" where
  "lone_crs [] = 0"
| "lone_crs [c] = (if c = CR then 1 else 0)"
| "lone_crs (c # d # cs) =
     (if c = CR \<and> d = LF then lone_crs cs
      else if c = CR then Suc (lone_crs (d # cs))
      else lone_crs (d # cs))"

fun lone_lfs :: "wchar list \<Rightarrow> nat" where
  "lone_lfs [] = 0"
| "lone_lfs [c] = (if c = LF then 1 else 0)"
| "lone_lfs (c # d # cs) =
     (if c = CR \<and> d = LF then lone_lfs cs
      else if c = LF then Suc (lone_lfs (d # cs))
      else lone_lfs (d # cs))"

fun crlf_pairs :: "wchar list \<Rightarrow> nat" where
  "crlf_pairs [] = 0"
| "crlf_pairs [c] = 0"
| "crlf_pairs (c # d # cs) =
     (if c = CR \<and> d = LF then Suc (crlf_pairs cs) else crlf_pairs (d # cs))"

section \<open>Tokens and syntax trees\<close>

text \<open>
  The lexer and the node classes are declared in headers of the repository that the
  parser includes. The token types below are the ones the parser names
  (\<^verbatim>\<open>token_type::plus\<close>, ...), together with \<open>numeric_literal\<close>; the names that
  clash with constants of HOL or with keywords of Isabelle carry the suffix \<open>_t\<close>,
  and a name that ends in an underscore in the source (\<^verbatim>\<open>if_\<close>) ends in \<open>_t\<close>.
\<close>

datatype token_type =
    whitespace | line_terminator | identifier_t | numeric_literal | string_literal | eof
  | multiply | divide_t | mod_t | plus_t | minus_t
  | lshift | rshift | rshiftshift
  | lt | ltequal | gt | gtequal | equalequal | notequal
  | and_t | xor_t | or_t | andand | oror
  | question | colon
  | equal_t | plusequal | minusequal | multiplyequal | divideequal | modequal
  | lshiftequal | rshiftequal | rshiftshiftequal | andequal | orequal | xorequal
  | comma | semicolon | dot
  | lparen | rparen | lbracket | rbracket | lbrace | rbrace
  | plusplus | minusminus | tilde | not_t
  | delete_t | void_t | typeof_t | new_t | this_t
  | var_t | if_t | else_t | while_t | for_t | in_t | continue_t | break_t | return_t | with_t
  | function_t

text \<open>A token: its type and its text (the name of an identifier, the characters of a
  literal).\<close>

datatype token = token (ttype: token_type) (ttext: string)

definition eof_token :: token where
  "eof_token = token eof []"

text \<open>\<^verbatim>\<open>explicit operator bool\<close> of a token: every token but the end of input.\<close>

definition is_token :: "token \<Rightarrow> bool" where
  "is_token t = (ttype t \<noteq> eof)"

text \<open>Modelled from the spec: \<^verbatim>\<open>is_literal\<close>, a function of the lexer's header; the
  primary expressions are identifier, \<^verbatim>\<open>this\<close>, literal and parenthesised expression.\<close>

definition is_literal :: "token_type \<Rightarrow> bool" where
  "is_literal tt = (tt = numeric_literal \<or> tt = string_literal)"

datatype expression =
    identifier_expression string
  | literal_expression token
  | call_expression expression "expression list"
  | prefix_expression token_type expression
  | postfix_expression token_type expression
  | binary_expression token_type expression expression
  | conditional_expression expression expression expression

datatype declaration_t = declaration_t string "expression option"

datatype statement =
    block_statement "statement list"
  | variable_statement "declaration_t list"
  | empty_statement
  | expression_statement expression
  | if_statement expression statement "statement option"
  | while_statement expression statement
  | for_statement "statement option" "expression option" "expression option" statement
  | for_in_statement statement expression statement
  | continue_statement
  | break_statement
  | return_statement "expression option"
  | with_statement expression statement
  | function_definition string "string list" statement

section \<open>Operator precedence\<close>

definition assignment_precedence :: int where "assignment_precedence = 15"
definition comma_precedence :: int where "comma_precedence = 16"

fun operator_precedence :: "token_type \<Rightarrow> int" where
  "operator_precedence multiply = 5"
| "operator_precedence divide_t = 5"
| "operator_precedence mod_t = 5"
| "operator_precedence plus_t = 6"
| "operator_precedence minus_t = 6"
| "operator_precedence lshift = 7"
| "operator_precedence rshift = 7"
| "operator_precedence rshiftshift = 7"
| "operator_precedence lt = 8"
| "operator_precedence ltequal = 8"
| "operator_precedence gt = 8"
| "operator_precedence gtequal = 8"
| "operator_precedence equalequal = 9"
| "operator_precedence notequal = 9"
| "operator_precedence and_t = 10"
| "operator_precedence xor_t = 11"
| "operator_precedence or_t = 12"
| "operator_precedence andand = 13"
| "operator_precedence oror = 13"
| "operator_precedence question = assignment_precedence"
| "operator_precedence equal_t = assignment_precedence"
| "operator_precedence plusequal = assignment_precedence"
| "operator_precedence minusequal = assignment_precedence"
| "operator_precedence multiplyequal = assignment_precedence"
| "operator_precedence divideequal = assignment_precedence"
| "operator_precedence modequal = assignment_precedence"
| "operator_precedence lshiftequal = assignment_precedence"
| "operator_precedence rshiftequal = assignment_precedence"
| "operator_precedence rshiftshiftequal = assignment_precedence"
| "operator_precedence andequal = assignment_precedence"
| "operator_precedence orequal = assignment_precedence"
| "operator_precedence xorequal = assignment_precedence"
| "operator_precedence comma = comma_precedence"
| "operator_precedence _ = comma_precedence + 1"

definition is_right_to_left :: "token_type \<Rightarrow> bool" where
  "is_right_to_left tt = (operator_precedence tt \<ge> assignment_precedence)"

section \<open>The parser's state and its token primitives\<close>

text \<open>
  The lexer is a cursor over the tokens of the source: the list of the tokens not yet
  consumed, whose head is the current token; past the last token the current token is
  the end of input. Of the parser's members, the state keeps the lexer and
  \<^verbatim>\<open>line_break_skipped_\<close>; the source offsets (\<^verbatim>\<open>token_start_\<close> and the two position
  stacks), which only feed the extents stored in the nodes, are left out, and so are the
  extents.
\<close>

record parser =
  lexer :: "token list"
  line_break_skipped :: bool

datatype syntax_error =
    Expected token_type string token
  | Unhandled string token

text \<open>The result of a parsing function: \<open>None\<close> when the recursion budget of the model
  is used up, otherwise the exception thrown or the value with the parser's new state.\<close>

type_synonym 'a parse_result = "(syntax_error + 'a \<times> parser) option"

definition current_token :: "parser \<Rightarrow> token" where
  "current_token p = (case lexer p of [] \<Rightarrow> eof_token | t # ts \<Rightarrow> t)"

definition current_token_type :: "parser \<Rightarrow> token_type" where
  "current_token_type p = ttype (current_token p)"

definition next_token :: "parser \<Rightarrow> parser" where
  "next_token p = p\<lparr>lexer := tl (lexer p)\<rparr>"

text \<open>The loop of \<^verbatim>\<open>skip_whitespace\<close>, over the remaining tokens and the flag.\<close>

fun skip_tokens :: "token list \<Rightarrow> bool \<Rightarrow> token list \<times> bool" where
  "skip_tokens [] lbs = ([], lbs)"
| "skip_tokens (t # ts) lbs =
     (if ttype t = whitespace then skip_tokens ts lbs
      else if ttype t = line_terminator then skip_tokens ts True
      else (t # ts, lbs))"

definition skip_whitespace :: "parser \<Rightarrow> parser" where
  "skip_whitespace p =
     (case skip_tokens (lexer p) (line_break_skipped p) of
        (ts, lbs) \<Rightarrow> p\<lparr>lexer := ts, line_break_skipped := lbs\<rparr>)"

definition get_token :: "parser \<Rightarrow> token \<times> parser" where
  "get_token p =
     (let t = current_token p;
          p1 = next_token p;
          p2 = p1\<lparr>line_break_skipped := False\<rparr>
      in (t, skip_whitespace p2))"

definition accept :: "token_type \<Rightarrow> parser \<Rightarrow> token \<times> parser" where
  "accept tt p = (if current_token_type p = tt then get_token p else (eof_token, p))"

definition expect :: "token_type \<Rightarrow> string \<Rightarrow> parser \<Rightarrow> syntax_error + token \<times> parser" where
  "expect tt func p =
     (case accept tt p of
        (t, p') \<Rightarrow> if \<not> is_token t then Inl (Expected tt func (current_token p')) else Inr (t, p'))"

definition expect_semicolon_allow_insertion :: "string \<Rightarrow> parser \<Rightarrow> syntax_error + unit \<times> parser" where
  "expect_semicolon_allow_insertion func p =
     (if \<not> line_break_skipped p \<and> current_token_type p \<noteq> rbrace \<and> current_token_type p \<noteq> eof
      then (case expect semicolon func p of Inl e \<Rightarrow> Inl e | Inr (t, p') \<Rightarrow> Inr ((), p'))
      else Inr ((), snd (accept semicolon p)))"

text \<open>Sequencing: an exception or an exhausted budget ends the computation.\<close>

definition pbind :: "'a parse_result \<Rightarrow> ('a \<Rightarrow> parser \<Rightarrow> 'b parse_result) \<Rightarrow> 'b parse_result" where
  "pbind r f = (case r of None \<Rightarrow> None | Some (Inl e) \<Rightarrow> Some (Inl e) | Some (Inr (x, p)) \<Rightarrow> f x p)"

definition ret :: "'a \<Rightarrow> parser \<Rightarrow> 'a parse_result" where
  "ret x p = Some (Inr (x, p))"

definition unhandled :: "string \<Rightarrow> parser \<Rightarrow> 'a parse_result" where
  "unhandled func p = Some (Inl (Unhandled func (current_token p)))"

section \<open>The recursive-descent parser\<close>

text \<open>
  The parsing functions of the source call each other recursively. Each is first written
  with the functions it calls as a parameter \<open>rec\<close> (the body of the source function,
  statement for statement); \<open>parse_functions_at\<close> then ties the recursion with a bound on
  the depth of calls: at depth 0 every function is out of budget, at depth \<open>Suc n\<close> every
  function runs its body over the functions of depth \<open>n\<close>. The loops of the source are
  the functions whose names end in \<open>_loop\<close>, each iteration a call; the second loop of
  \<^verbatim>\<open>parse_expression1\<close> is \<open>parse_expression1_look_ahead\<close>.
\<close>

record parse_functions =
  parse_primary_expression_r :: "parser \<Rightarrow> expression parse_result"
  parse_postfix_expression_r :: "parser \<Rightarrow> expression parse_result"
  parse_unary_expression_r :: "parser \<Rightarrow> expression parse_result"
  parse_expression1_r :: "expression \<Rightarrow> int \<Rightarrow> parser \<Rightarrow> expression parse_result"
  parse_expression1_look_ahead_r :: "expression \<Rightarrow> int \<Rightarrow> parser \<Rightarrow> expression parse_result"
  parse_assignment_expression_r :: "parser \<Rightarrow> expression parse_result"
  parse_expression_r :: "parser \<Rightarrow> expression parse_result"
  parse_argument_list_r :: "parser \<Rightarrow> expression list parse_result"
  parse_argument_list_loop_r :: "expression list \<Rightarrow> parser \<Rightarrow> expression list parse_result"
  parse_member_expression_r :: "parser \<Rightarrow> expression parse_result"
  parse_member_expression_loop_r :: "expression \<Rightarrow> parser \<Rightarrow> expression parse_result"
  parse_left_hand_side_expression_r :: "parser \<Rightarrow> expression parse_result"
  parse_left_hand_side_expression_loop_r :: "expression \<Rightarrow> parser \<Rightarrow> expression parse_result"
  parse_block_r :: "parser \<Rightarrow> statement parse_result"
  parse_block_loop_r :: "statement list \<Rightarrow> parser \<Rightarrow> statement list parse_result"
  parse_variable_declaration_list_loop_r :: "declaration_t list \<Rightarrow> parser \<Rightarrow> declaration_t list parse_result"
  parse_statement_r :: "parser \<Rightarrow> statement parse_result"
  parse_function_params_loop_r :: "string list \<Rightarrow> parser \<Rightarrow> string list parse_result"
  parse_function_r :: "parser \<Rightarrow> statement parse_result"
  parse_statement_or_function_declaration_r :: "parser \<Rightarrow> statement parse_result"

definition parse_primary_expression_body :: "parse_functions \<Rightarrow> parser \<Rightarrow> expression parse_result" where
  "parse_primary_expression_body rec p =
     (case accept identifier_t p of (idt, p1) \<Rightarrow>
        if is_token idt then ret (identifier_expression (ttext idt)) p1
        else (case accept this_t p1 of (t, p2) \<Rightarrow>
          if is_token t then ret (identifier_expression ''this'') p2
          else (case accept lparen p2 of (t, p3) \<Rightarrow>
            if is_token t then
              pbind (parse_expression_r rec p3) (\<lambda>e p4.
              pbind (Some (expect rparen ''parse_primary_expression'' p4)) (\<lambda>t p5.
              ret e p5))
            else if is_literal (current_token_type p3) then
              (case get_token p3 of (t, p4) \<Rightarrow> ret (literal_expression t) p4)
            else unhandled ''parse_primary_expression'' p3)))"

definition parse_postfix_expression_body :: "parse_functions \<Rightarrow> parser \<Rightarrow> expression parse_result" where
  "parse_postfix_expression_body rec p =
     pbind (parse_left_hand_side_expression_r rec p) (\<lambda>lhs p1.
       if line_break_skipped p1 then ret lhs p1
       else
         (let t = current_token_type p1 in
          case accept plusplus p1 of (a, p2) \<Rightarrow>
            if is_token a then ret (postfix_expression t lhs) p2
            else (case accept minusminus p2 of (b, p3) \<Rightarrow>
              if is_token b then ret (postfix_expression t lhs) p3
              else ret lhs p3)))"

definition parse_unary_expression_body :: "parse_functions \<Rightarrow> parser \<Rightarrow> expression parse_result" where
  "parse_unary_expression_body rec p =
     (let t = current_token_type p in
      if t = delete_t \<or> t = void_t \<or> t = typeof_t \<or> t = plusplus \<or> t = minusminus \<or>
         t = plus_t \<or> t = minus_t \<or> t = tilde \<or> t = not_t
      then
        pbind (parse_unary_expression_r rec (snd (accept t p))) (\<lambda>e p1.
        ret (prefix_expression t e) p1)
      else parse_postfix_expression_r rec p)"

definition parse_expression1_body :: "parse_functions \<Rightarrow> expression \<Rightarrow> int \<Rightarrow> parser \<Rightarrow> expression parse_result" where
  "parse_expression1_body rec lhs outer_precedence p =
     (let op = current_token_type p;
          precedence = operator_precedence op
      in
      if precedence > outer_precedence then ret lhs p
      else
        (let p1 = snd (get_token p) in
         if op = question then
           pbind (parse_assignment_expression_r rec p1) (\<lambda>l p2.
           pbind (Some (expect colon ''parse_expression1'' p2)) (\<lambda>t p3.
           pbind (parse_assignment_expression_r rec p3) (\<lambda>r p4.
           parse_expression1_r rec (conditional_expression lhs l r) outer_precedence p4)))
         else
           pbind (parse_unary_expression_r rec p1) (\<lambda>rhs p2.
           pbind (parse_expression1_look_ahead_r rec rhs precedence p2) (\<lambda>rhs' p3.
           parse_expression1_r rec (binary_expression op lhs rhs') outer_precedence p3))))"

definition parse_expression1_look_ahead_body :: "parse_functions \<Rightarrow> expression \<Rightarrow> int \<Rightarrow> parser \<Rightarrow> expression parse_result" where
  "parse_expression1_look_ahead_body rec rhs precedence p =
     (let look_ahead = current_token_type p;
          look_ahead_precedence = operator_precedence look_ahead
      in
      if look_ahead_precedence > precedence \<or>
         (look_ahead_precedence = precedence \<and> \<not> is_right_to_left look_ahead)
      then ret rhs p
      else
        pbind (parse_expression1_r rec rhs look_ahead_precedence p) (\<lambda>rhs' p1.
        parse_expression1_look_ahead_r rec rhs' precedence p1))"

definition parse_assignment_expression_body :: "parse_functions \<Rightarrow> parser \<Rightarrow> expression parse_result" where
  "parse_assignment_expression_body rec p =
     pbind (parse_unary_expression_r rec p) (\<lambda>lhs p1.
     parse_expression1_r rec lhs assignment_precedence p1)"

definition parse_expression_body :: "parse_functions \<Rightarrow> parser \<Rightarrow> expression parse_result" where
  "parse_expression_body rec p =
     pbind (parse_assignment_expression_r rec p) (\<lambda>lhs p1.
     parse_expression1_r rec lhs comma_precedence p1)"

definition parse_argument_list_body :: "parse_functions \<Rightarrow> parser \<Rightarrow> expression list parse_result" where
  "parse_argument_list_body rec p =
     pbind (Some (expect lparen ''parse_argument_list'' p)) (\<lambda>t p1.
       case accept rparen p1 of (a, p2) \<Rightarrow>
         if \<not> is_token a then
           pbind (parse_argument_list_loop_r rec [] p2) (\<lambda>l p3.
           pbind (Some (expect rparen ''parse_argument_list'' p3)) (\<lambda>t p4.
           ret l p4))
         else ret [] p2)"

definition parse_argument_list_loop_body :: "parse_functions \<Rightarrow> expression list \<Rightarrow> parser \<Rightarrow> expression list parse_result" where
  "parse_argument_list_loop_body rec l p =
     pbind (parse_assignment_expression_r rec p) (\<lambda>e p1.
       case accept comma p1 of (a, p2) \<Rightarrow>
         if is_token a then parse_argument_list_loop_r rec (l @ [e]) p2
         else ret (l @ [e]) p2)"

definition parse_member_expression_body :: "parse_functions \<Rightarrow> parser \<Rightarrow> expression parse_result" where
  "parse_member_expression_body rec p =
     (case accept new_t p of (a, p1) \<Rightarrow>
        if is_token a then
          pbind (parse_member_expression_r rec p1) (\<lambda>e p2.
          pbind (if current_token_type p2 = lparen
                 then pbind (parse_argument_list_r rec p2) (\<lambda>args p3. ret (call_expression e args) p3)
                 else ret e p2) (\<lambda>e' p3.
          parse_member_expression_loop_r rec (prefix_expression new_t e') p3))
        else
          pbind (parse_primary_expression_r rec p1) (\<lambda>me p2.
          parse_member_expression_loop_r rec me p2))"

definition parse_member_expression_loop_body :: "parse_functions \<Rightarrow> expression \<Rightarrow> parser \<Rightarrow> expression parse_result" where
  "parse_member_expression_loop_body rec me p =
     (case accept lbracket p of (a, p1) \<Rightarrow>
        if is_token a then
          pbind (parse_expression_r rec p1) (\<lambda>e p2.
          pbind (Some (expect rbracket ''parse_member_expression'' p2)) (\<lambda>t p3.
          parse_member_expression_loop_r rec (binary_expression lbracket me e) p3))
        else (case accept dot p1 of (b, p2) \<Rightarrow>
          if is_token b then
            pbind (Some (expect identifier_t ''parse_member_expression'' p2)) (\<lambda>idt p3.
            parse_member_expression_loop_r rec
              (binary_expression dot me (literal_expression (token string_literal (ttext idt)))) p3)
          else ret me p2))"

definition parse_left_hand_side_expression_body :: "parse_functions \<Rightarrow> parser \<Rightarrow> expression parse_result" where
  "parse_left_hand_side_expression_body rec p =
     pbind (parse_member_expression_r rec p) (\<lambda>m p1.
     parse_left_hand_side_expression_loop_r rec m p1)"

definition parse_left_hand_side_expression_loop_body :: "parse_functions \<Rightarrow> expression \<Rightarrow> parser \<Rightarrow> expression parse_result" where
  "parse_left_hand_side_expression_loop_body rec m p =
     (if current_token_type p = lparen then
        pbind (parse_argument_list_r rec p) (\<lambda>args p1.
        parse_left_hand_side_expression_loop_r rec (call_expression m args) p1)
      else (case accept lbracket p of (a, p1) \<Rightarrow>
        if is_token a then
          pbind (parse_expression_r rec p1) (\<lambda>e p2.
          pbind (Some (expect rbracket ''parse_left_hand_side_expression'' p2)) (\<lambda>t p3.
          parse_left_hand_side_expression_loop_r rec (binary_expression lbracket m e) p3))
        else (case accept dot p1 of (b, p2) \<Rightarrow>
          if is_token b then
            pbind (Some (expect identifier_t ''parse_left_hand_side_expression'' p2)) (\<lambda>idt p3.
            parse_left_hand_side_expression_loop_r rec
              (binary_expression dot m (literal_expression (token string_literal (ttext idt)))) p3)
          else ret m p2)))"

definition parse_block_body :: "parse_functions \<Rightarrow> parser \<Rightarrow> statement parse_result" where
  "parse_block_body rec p =
     pbind (Some (expect lbrace ''parse_block'' p)) (\<lambda>t p1.
     pbind (parse_block_loop_r rec [] p1) (\<lambda>l p2.
     ret (block_statement l) p2))"

definition parse_block_loop_body :: "parse_functions \<Rightarrow> statement list \<Rightarrow> parser \<Rightarrow> statement list parse_result" where
  "parse_block_loop_body rec l p =
     (case accept rbrace p of (a, p1) \<Rightarrow>
        if \<not> is_token a then
          pbind (parse_statement_or_function_declaration_r rec p1) (\<lambda>s p2.
          parse_block_loop_r rec (l @ [s]) p2)
        else ret l p1)"

definition parse_variable_declaration_list_loop_body :: "parse_functions \<Rightarrow> declaration_t list \<Rightarrow> parser \<Rightarrow> declaration_t list parse_result" where
  "parse_variable_declaration_list_loop_body rec l p =
     pbind (Some (expect identifier_t ''parse_variable_declaration_list'' p)) (\<lambda>idt p1.
     pbind (case accept equal_t p1 of (a, p2) \<Rightarrow>
              if is_token a then
                pbind (parse_assignment_expression_r rec p2) (\<lambda>e p3. ret (Some e) p3)
              else ret None p2) (\<lambda>init p3.
       case accept comma p3 of (b, p4) \<Rightarrow>
         if is_token b
         then parse_variable_declaration_list_loop_r rec (l @ [declaration_t (ttext idt) init]) p4
         else ret (l @ [declaration_t (ttext idt) init]) p4))"

definition parse_statement_body :: "parse_functions \<Rightarrow> parser \<Rightarrow> statement parse_result" where
  "parse_statement_body rec p =
     (if current_token_type p = lbrace then parse_block_r rec p
      else (case accept var_t p of (a1, p1) \<Rightarrow>
      if is_token a1 then
        pbind (parse_variable_declaration_list_loop_r rec [] p1) (\<lambda>dl p2.
        pbind (Some (expect_semicolon_allow_insertion ''parse_statement'' p2)) (\<lambda>u p3.
        ret (variable_statement dl) p3))
      else if current_token_type p1 = semicolon then
        ret empty_statement (snd (get_token p1))
      else (case accept if_t p1 of (a2, p2) \<Rightarrow>
      if is_token a2 then
        pbind (Some (expect lparen ''parse_statement'' p2)) (\<lambda>t p3.
        pbind (parse_expression_r rec p3) (\<lambda>cond p4.
        pbind (Some (expect rparen ''parse_statement'' p4)) (\<lambda>t p5.
        pbind (parse_statement_r rec p5) (\<lambda>if_s p6.
          case accept else_t (snd (accept semicolon p6)) of (b, p7) \<Rightarrow>
            if is_token b then
              pbind (parse_statement_r rec p7) (\<lambda>else_s p8.
              ret (if_statement cond if_s (Some else_s)) p8)
            else ret (if_statement cond if_s None) p7))))
      else (case accept while_t p2 of (a3, p3) \<Rightarrow>
      if is_token a3 then
        pbind (Some (expect lparen ''parse_statement'' p3)) (\<lambda>t p4.
        pbind (parse_expression_r rec p4) (\<lambda>cond p5.
        pbind (Some (expect rparen ''parse_statement'' p5)) (\<lambda>t p6.
        pbind (parse_statement_r rec p6) (\<lambda>s p7.
        ret (while_statement cond s) p7))))
      else (case accept for_t p3 of (a4, p4) \<Rightarrow>
      if is_token a4 then
        pbind (Some (expect lparen ''parse_statement'' p4)) (\<lambda>t p5.
          case accept semicolon p5 of (b1, p6) \<Rightarrow>
            let rest = (\<lambda>init q.
              pbind (case accept semicolon q of (b2, q1) \<Rightarrow>
                       if \<not> is_token b2 then
                         pbind (parse_expression_r rec q1) (\<lambda>c q2.
                         pbind (Some (expect semicolon ''parse_statement'' q2)) (\<lambda>t q3.
                         ret (Some c) q3))
                       else ret None q1) (\<lambda>cond q4.
              pbind (case accept rparen q4 of (b3, q5) \<Rightarrow>
                       if \<not> is_token b3 then
                         pbind (parse_expression_r rec q5) (\<lambda>i q6.
                         pbind (Some (expect rparen ''parse_statement'' q6)) (\<lambda>t q7.
                         ret (Some i) q7))
                       else ret None q5) (\<lambda>iter q8.
              pbind (parse_statement_r rec q8) (\<lambda>s q9.
              ret (for_statement init cond iter s) q9))))
            in
            if \<not> is_token b1 then
              pbind (case accept var_t p6 of (b4, p7) \<Rightarrow>
                       if is_token b4 then
                         pbind (parse_variable_declaration_list_loop_r rec [] p7) (\<lambda>dl p8.
                         ret (variable_statement dl) p8)
                       else
                         pbind (parse_expression_r rec p7) (\<lambda>e p8.
                         ret (expression_statement e) p8)) (\<lambda>init p9.
                case accept in_t p9 of (b5, p10) \<Rightarrow>
                  if is_token b5 then
                    (if (case init of variable_statement dl \<Rightarrow> length dl \<noteq> 1 | _ \<Rightarrow> False)
                     then unhandled ''parse_statement'' p10
                     else
                       pbind (parse_expression_r rec p10) (\<lambda>e p11.
                       pbind (Some (expect rparen ''parse_statement'' p11)) (\<lambda>t p12.
                       pbind (parse_statement_r rec p12) (\<lambda>s p13.
                       ret (for_in_statement init e s) p13))))
                  else
                    pbind (Some (expect semicolon ''parse_statement'' p10)) (\<lambda>t p11.
                    rest (Some init) p11))
            else rest None p6)
      else (case accept continue_t p4 of (a5, p5) \<Rightarrow>
      if is_token a5 then
        pbind (Some (expect_semicolon_allow_insertion ''parse_statement'' p5)) (\<lambda>u p6.
        ret continue_statement p6)
      else (case accept break_t p5 of (a6, p6) \<Rightarrow>
      if is_token a6 then
        pbind (Some (expect_semicolon_allow_insertion ''parse_statement'' p6)) (\<lambda>u p7.
        ret break_statement p7)
      else (case accept return_t p6 of (a7, p7) \<Rightarrow>
      if is_token a7 then
        pbind (if \<not> line_break_skipped p7 \<and> current_token_type p7 \<noteq> semicolon
               then pbind (parse_expression_r rec p7) (\<lambda>e p8. ret (Some e) p8)
               else ret None p7) (\<lambda>e p9.
        pbind (Some (expect_semicolon_allow_insertion ''parse_statement'' p9)) (\<lambda>u p10.
        ret (return_statement e) p10))
      else (case accept with_t p7 of (a8, p8) \<Rightarrow>
      if is_token a8 then
        pbind (Some (expect lparen ''parse_statement'' p8)) (\<lambda>t p9.
        pbind (parse_expression_r rec p9) (\<lambda>e p10.
        pbind (Some (expect rparen ''parse_statement'' p10)) (\<lambda>t p11.
        pbind (parse_statement_r rec p11) (\<lambda>s p12.
        ret (with_statement e s) p12))))
      else
        pbind (parse_expression_r rec p8) (\<lambda>e p9.
        pbind (Some (expect_semicolon_allow_insertion ''parse_statement'' p9)) (\<lambda>u p10.
        ret (expression_statement e) p10)))))))))))"

definition parse_function_params_loop_body :: "parse_functions \<Rightarrow> string list \<Rightarrow> parser \<Rightarrow> string list parse_result" where
  "parse_function_params_loop_body rec params p =
     pbind (Some (expect identifier_t ''parse_function'' p)) (\<lambda>idt p1.
       case accept comma p1 of (a, p2) \<Rightarrow>
         if is_token a then parse_function_params_loop_r rec (params @ [ttext idt]) p2
         else ret (params @ [ttext idt]) p2)"

definition parse_function_body :: "parse_functions \<Rightarrow> parser \<Rightarrow> statement parse_result" where
  "parse_function_body rec p =
     pbind (Some (expect function_t ''parse_function'' p)) (\<lambda>t p1.
     pbind (Some (expect identifier_t ''parse_function'' p1)) (\<lambda>idt p2.
     pbind (Some (expect lparen ''parse_function'' p2)) (\<lambda>t p3.
     pbind (case accept rparen p3 of (a, p4) \<Rightarrow>
              if \<not> is_token a then
                pbind (parse_function_params_loop_r rec [] p4) (\<lambda>params p5.
                pbind (Some (expect rparen ''parse_function'' p5)) (\<lambda>t p6.
                ret params p6))
              else ret [] p4) (\<lambda>params p7.
     pbind (parse_block_r rec p7) (\<lambda>block p8.
     ret (function_definition (ttext idt) params block) p8)))))"

definition parse_statement_or_function_declaration_body :: "parse_functions \<Rightarrow> parser \<Rightarrow> statement parse_result" where
  "parse_statement_or_function_declaration_body rec p =
     (let p1 = skip_whitespace p in
      if current_token_type p1 = function_t then parse_function_r rec p1
      else parse_statement_r rec p1)"

primrec parse_functions_at :: "nat \<Rightarrow> parse_functions" where
  "parse_functions_at 0 =
     \<lparr>parse_primary_expression_r = (\<lambda>a. None),
      parse_postfix_expression_r = (\<lambda>a. None),
      parse_unary_expression_r = (\<lambda>a. None),
      parse_expression1_r = (\<lambda>a b c. None),
      parse_expression1_look_ahead_r = (\<lambda>a b c. None),
      parse_assignment_expression_r = (\<lambda>a. None),
      parse_expression_r = (\<lambda>a. None),
      parse_argument_list_r = (\<lambda>a. None),
      parse_argument_list_loop_r = (\<lambda>a b. None),
      parse_member_expression_r = (\<lambda>a. None),
      parse_member_expression_loop_r = (\<lambda>a b. None),
      parse_left_hand_side_expression_r = (\<lambda>a. None),
      parse_left_hand_side_expression_loop_r = (\<lambda>a b. None),
      parse_block_r = (\<lambda>a. None),
      parse_block_loop_r = (\<lambda>a b. None),
      parse_variable_declaration_list_loop_r = (\<lambda>a b. None),
      parse_statement_r = (\<lambda>a. None),
      parse_function_params_loop_r = (\<lambda>a b. None),
      parse_function_r = (\<lambda>a. None),
      parse_statement_or_function_declaration_r = (\<lambda>a. None)\<rparr>"
| "parse_functions_at (Suc n) =
     \<lparr>parse_primary_expression_r = parse_primary_expression_body (parse_functions_at n),
      parse_postfix_expression_r = parse_postfix_expression_body (parse_functions_at n),
      parse_unary_expression_r = parse_unary_expression_body (parse_functions_at n),
      parse_expression1_r = parse_expression1_body (parse_functions_at n),
      parse_expression1_look_ahead_r = parse_expression1_look_ahead_body (parse_functions_at n),
      parse_assignment_expression_r = parse_assignment_expression_body (parse_functions_at n),
      parse_expression_r = parse_expression_body (parse_functions_at n),
      parse_argument_list_r = parse_argument_list_body (parse_functions_at n),
      parse_argument_list_loop_r = parse_argument_list_loop_body (parse_functions_at n),
      parse_member_expression_r = parse_member_expression_body (parse_functions_at n),
      parse_member_expression_loop_r = parse_member_expression_loop_body (parse_functions_at n),
      parse_left_hand_side_expression_r = parse_left_hand_side_expression_body (parse_functions_at n),
      parse_left_hand_side_expression_loop_r = parse_left_hand_side_expression_loop_body (parse_functions_at n),
      parse_block_r = parse_block_body (parse_functions_at n),
      parse_block_loop_r = parse_block_loop_body (parse_functions_at n),
      parse_variable_declaration_list_loop_r = parse_variable_declaration_list_loop_body (parse_functions_at n),
      parse_statement_r = parse_statement_body (parse_functions_at n),
      parse_function_params_loop_r = parse_function_params_loop_body (parse_functions_at n),
      parse_function_r = parse_function_body (parse_functions_at n),
      parse_statement_or_function_declaration_r = parse_statement_or_function_declaration_body (parse_functions_at n)\<rparr>"

text \<open>The parsing functions, with the bound as their first argument.\<close>

definition parse_primary_expression :: "nat \<Rightarrow> parser \<Rightarrow> expression parse_result" where
  "parse_primary_expression n = parse_primary_expression_r (parse_functions_at n)"

definition parse_postfix_expression :: "nat \<Rightarrow> parser \<Rightarrow> expression parse_result" where
  "parse_postfix_expression n = parse_postfix_expression_r (parse_functions_at n)"

definition parse_unary_expression :: "nat \<Rightarrow> parser \<Rightarrow> expression parse_result" where
  "parse_unary_expression n = parse_unary_expression_r (parse_functions_at n)"

definition parse_expression1 :: "nat \<Rightarrow> expression \<Rightarrow> int \<Rightarrow> parser \<Rightarrow> expression parse_result" where
  "parse_expression1 n = parse_expression1_r (parse_functions_at n)"

definition parse_expression1_look_ahead :: "nat \<Rightarrow> expression \<Rightarrow> int \<Rightarrow> parser \<Rightarrow> expression parse_result" where
  "parse_expression1_look_ahead n = parse_expression1_look_ahead_r (parse_functions_at n)"

definition parse_assignment_expression :: "nat \<Rightarrow> parser \<Rightarrow> expression parse_result" where
  "parse_assignment_expression n = parse_assignment_expression_r (parse_functions_at n)"

definition parse_expression :: "nat \<Rightarrow> parser \<Rightarrow> expression parse_result" where
  "parse_expression n = parse_expression_r (parse_functions_at n)"

definition parse_argument_list :: "nat \<Rightarrow> parser \<Rightarrow> expression list parse_result" where
  "parse_argument_list n = parse_argument_list_r (parse_functions_at n)"

definition parse_argument_list_loop :: "nat \<Rightarrow> expression list \<Rightarrow> parser \<Rightarrow> expression list parse_result" where
  "parse_argument_list_loop n = parse_argument_list_loop_r (parse_functions_at n)"

definition parse_member_expression :: "nat \<Rightarrow> parser \<Rightarrow> expression parse_result" where
  "parse_member_expression n = parse_member_expression_r (parse_functions_at n)"

definition parse_member_expression_loop :: "nat \<Rightarrow> expression \<Rightarrow> parser \<Rightarrow> expression parse_result" where
  "parse_member_expression_loop n = parse_member_expression_loop_r (parse_functions_at n)"

definition parse_left_hand_side_expression :: "nat \<Rightarrow> parser \<Rightarrow> expression parse_result" where
  "parse_left_hand_side_expression n = parse_left_hand_side_expression_r (parse_functions_at n)"

definition parse_left_hand_side_expression_loop :: "nat \<Rightarrow> expression \<Rightarrow> parser \<Rightarrow> expression parse_result" where
  "parse_left_hand_side_expression_loop n = parse_left_hand_side_expression_loop_r (parse_functions_at n)"

definition parse_block :: "nat \<Rightarrow> parser \<Rightarrow> statement parse_result" where
  "parse_block n = parse_block_r (parse_functions_at n)"

definition parse_block_loop :: "nat \<Rightarrow> statement list \<Rightarrow> parser \<Rightarrow> statement list parse_result" where
  "parse_block_loop n = parse_block_loop_r (parse_functions_at n)"

definition parse_variable_declaration_list_loop :: "nat \<Rightarrow> declaration_t list \<Rightarrow> parser \<Rightarrow> declaration_t list parse_result" where
  "parse_variable_declaration_list_loop n = parse_variable_declaration_list_loop_r (parse_functions_at n)"

definition parse_statement :: "nat \<Rightarrow> parser \<Rightarrow> statement parse_result" where
  "parse_statement n = parse_statement_r (parse_functions_at n)"

definition parse_function_params_loop :: "nat \<Rightarrow> string list \<Rightarrow> parser \<Rightarrow> string list parse_result" where
  "parse_function_params_loop n = parse_function_params_loop_r (parse_functions_at n)"

definition parse_function :: "nat \<Rightarrow> parser \<Rightarrow> statement parse_result" where
  "parse_function n = parse_function_r (parse_functions_at n)"

definition parse_statement_or_function_declaration :: "nat \<Rightarrow> parser \<Rightarrow> statement parse_result" where
  "parse_statement_or_function_declaration n = parse_statement_or_function_declaration_r (parse_functions_at n)"

text \<open>\<^verbatim>\<open>parser::parse\<close>: statements until the end of input. The source rethrows an
  exception with the source extent in front of its message; the model keeps the
  exception.\<close>

fun parse_loop :: "nat \<Rightarrow> statement list \<Rightarrow> parser \<Rightarrow> statement list parse_result" where
  "parse_loop 0 l p = None"
| "parse_loop (Suc n) l p =
     (if is_token (current_token p) then
        pbind (parse_statement_or_function_declaration n p) (\<lambda>s p1.
        parse_loop n (l @ [s]) p1)
      else ret l p)"

definition new_parser :: "token list \<Rightarrow> parser" where
  "new_parser ts = \<lparr>lexer = ts, line_break_skipped = False\<rparr>"

definition parse :: "nat \<Rightarrow> token list \<Rightarrow> (syntax_error + statement) option" where
  "parse n ts =
     (case parse_loop n [] (new_parser ts) of
        None \<Rightarrow> None
      | Some (Inl e) \<Rightarrow> Some (Inl e)
      | Some (Inr (l, p)) \<Rightarrow> Some (Inr (block_statement l)))"

section \<open>IEEE 754 doubles\<close>

text \<open>
  A C++ \<^verbatim>\<open>double\<close> is its 64-bit pattern: bit 63 the sign, bits 62 to 52 the biased
  exponent, bits 51 to 0 the fraction. The fields are read arithmetically from the
  unsigned value of the pattern.
\<close>

type_synonym double = "64 word"

definition sign_bit :: "double \<Rightarrow> bool" where
  "sign_bit d = (2 ^ 63 \<le> unat d)"

definition biased_exponent :: "double \<Rightarrow> nat" where
  "biased_exponent d = (unat d div 2 ^ 52) mod 2 ^ 11"

definition fraction :: "double \<Rightarrow> nat" where
  "fraction d = unat d mod 2 ^ 52"

text \<open>\<^verbatim>\<open>std::isnan\<close>, \<^verbatim>\<open>std::isinf\<close>, and the comparisons \<^verbatim>\<open>d == 0\<close> and \<^verbatim>\<open>d < 0\<close>.\<close>

definition isnan :: "double \<Rightarrow> bool" where
  "isnan d = (biased_exponent d = 2047 \<and> fraction d \<noteq> 0)"

definition isinf :: "double \<Rightarrow> bool" where
  "isinf d = (biased_exponent d = 2047 \<and> fraction d = 0)"

definition is_zero :: "double \<Rightarrow> bool" where
  "is_zero d = (biased_exponent d = 0 \<and> fraction d = 0)"

definition is_negative :: "double \<Rightarrow> bool" where
  "is_negative d = (sign_bit d \<and> \<not> isnan d \<and> \<not> is_zero d)"

text \<open>The comparison \<^verbatim>\<open>a == b\<close> of two doubles: false when either is a NaN, true for two
  zeros of any sign, and otherwise equality of the patterns.\<close>

definition double_eq :: "double \<Rightarrow> double \<Rightarrow> bool" where
  "double_eq a b = (\<not> isnan a \<and> \<not> isnan b \<and> (a = b \<or> (is_zero a \<and> is_zero b)))"

definition make_double :: "bool \<Rightarrow> nat \<Rightarrow> nat \<Rightarrow> double" where
  "make_double s e f = word_of_nat ((if s then 2 ^ 63 else 0) + e * 2 ^ 52 + f)"

definition is_finite :: "double \<Rightarrow> bool" where
  "is_finite d = (biased_exponent d < 2047)"

text \<open>The number a finite double stands for (a rational): subnormal when the biased
  exponent is 0, with the hidden bit otherwise.\<close>

definition magnitude :: "double \<Rightarrow> real" where
  "magnitude d =
     (if biased_exponent d = 0 then of_nat (fraction d) * 2 powi (- 1074)
      else of_nat (2 ^ 52 + fraction d) * 2 powi (int (biased_exponent d) - 1075))"

definition valof :: "double \<Rightarrow> real" where
  "valof d = (if sign_bit d then - magnitude d else magnitude d)"

definition quiet_nan :: double where
  "quiet_nan = make_double False 2047 (2 ^ 51)"

definition infinity :: "bool \<Rightarrow> double" where
  "infinity s = make_double s 2047 0"

subsection \<open>Rounding a number to a double\<close>

text \<open>The number of digits of \<open>n\<close> in base \<open>b\<close>.\<close>

function digits :: "nat \<Rightarrow> nat \<Rightarrow> nat" where
  "digits b n = (if n = 0 \<or> b < 2 then 0 else Suc (digits b (n div b)))"
  by pat_completeness auto
termination
  by (relation "measure snd") auto

declare digits.simps [simp del]

text \<open>For a positive number \<open>q\<close>, the integer \<open>l\<close> with \<open>b ^ l \<le> q < b ^ (l + 1)\<close>.\<close>

definition ilog :: "nat \<Rightarrow> real \<Rightarrow> int" where
  "ilog b q =
     (if 1 \<le> q then int (digits b (nat \<lfloor>q\<rfloor>)) - 1
      else - int (digits b (nat (\<lceil>1 / q\<rceil> - 1))))"

text \<open>Rounding to the nearest integer, a tie to the even one.\<close>

definition round_half_even :: "real \<Rightarrow> int" where
  "round_half_even q =
     (let n = \<lfloor>q\<rfloor>; r = q - of_int n
      in if r < 1 / 2 then n
         else if 1 / 2 < r then n + 1
         else if even n then n else n + 1)"

text \<open>
  The double nearest to the magnitude \<open>q \<ge> 0\<close>, with sign \<open>s\<close> (round to nearest, ties
  to even, the rounding of IEEE arithmetic and of a correctly rounding \<^verbatim>\<open>strtod\<close>):
  \<open>e\<close> is the exponent of the last place of the result, \<open>m\<close> the significand in units of
  the last place. A significand that rounds up to \<open>2^53\<close> moves to the next exponent; a
  result beyond the largest double is the infinity.
\<close>

definition round_to_double :: "bool \<Rightarrow> real \<Rightarrow> double" where
  "round_to_double s q =
     (if q = 0 then make_double s 0 0
      else
        (let e = max (ilog 2 q - 52) (- 1074);
             m = nat (round_half_even (q * 2 powi (- e)));
             e' = (if m = 2 ^ 53 then e + 1 else e);
             m' = (if m = 2 ^ 53 then 2 ^ 52 else m)
         in if m' < 2 ^ 52 then make_double s 0 m'
            else if 971 < e' then infinity s
            else make_double s (nat (e' + 1075)) (m' - 2 ^ 52)))"

subsection \<open>Arithmetic\<close>

text \<open>
  The operations of the C++ source on doubles, each the exact result rounded.
  Every NaN result is the quiet NaN (payloads of NaN operands are not propagated).
\<close>

text \<open>Unary minus and \<^verbatim>\<open>std::abs\<close> act on the sign bit only.\<close>

definition double_neg :: "double \<Rightarrow> double" where
  "double_neg d = make_double (\<not> sign_bit d) (biased_exponent d) (fraction d)"

definition double_abs :: "double \<Rightarrow> double" where
  "double_abs d = make_double False (biased_exponent d) (fraction d)"

text \<open>\<^verbatim>\<open>std::floor\<close>: NaN, the infinities and the zeros are returned as they are.\<close>

definition double_floor :: "double \<Rightarrow> double" where
  "double_floor d =
     (if \<not> is_finite d \<or> is_zero d then d
      else round_to_double (sign_bit d) \<bar>of_int \<lfloor>valof d\<rfloor>\<bar>)"

definition double_mul :: "double \<Rightarrow> double \<Rightarrow> double" where
  "double_mul a b =
     (if isnan a \<or> isnan b then quiet_nan
      else if (isinf a \<and> is_zero b) \<or> (is_zero a \<and> isinf b) then quiet_nan
      else if isinf a \<or> isinf b then infinity (sign_bit a \<noteq> sign_bit b)
      else round_to_double (sign_bit a \<noteq> sign_bit b) (magnitude a * magnitude b))"

definition double_div :: "double \<Rightarrow> double \<Rightarrow> double" where
  "double_div a b =
     (if isnan a \<or> isnan b then quiet_nan
      else if (isinf a \<and> isinf b) \<or> (is_zero a \<and> is_zero b) then quiet_nan
      else if isinf a \<or> is_zero b then infinity (sign_bit a \<noteq> sign_bit b)
      else if isinf b then make_double (sign_bit a \<noteq> sign_bit b) 0 0
      else round_to_double (sign_bit a \<noteq> sign_bit b) (magnitude a / magnitude b))"

definition double_sub :: "double \<Rightarrow> double \<Rightarrow> double" where
  "double_sub a b =
     (if isnan a \<or> isnan b then quiet_nan
      else if isinf a \<and> isinf b then (if sign_bit a = sign_bit b then quiet_nan else a)
      else if isinf a then a
      else if isinf b then double_neg b
      else
        (let r = valof a - valof b
         in if r = 0 then make_double (sign_bit a \<and> \<not> sign_bit b) 0 0
            else round_to_double (r < 0) \<bar>r\<bar>))"

text \<open>The comparison \<^verbatim>\<open>a < b\<close>: false when either is a NaN.\<close>

definition double_less :: "double \<Rightarrow> double \<Rightarrow> bool" where
  "double_less a b =
     (\<not> isnan a \<and> \<not> isnan b \<and>
      (if isinf a then sign_bit a \<and> \<not> (isinf b \<and> sign_bit b)
       else if isinf b then \<not> sign_bit b
       else valof a < valof b))"

text \<open>Doubles the source writes as literals or converts from integers.\<close>

definition double_zero :: double where "double_zero = make_double False 0 0"
definition double_one :: double where "double_one = make_double False 1023 0"
definition double_minus_one :: double where "double_minus_one = make_double True 1023 0"
definition double_2_32 :: double where "double_2_32 = make_double False 1055 0"

text \<open>The magnitudes of the finite doubles: at most 53 significant bits over an exponent
  of at least \<open>-1074\<close>, below \<open>2^1024\<close>.\<close>

definition representable :: "real \<Rightarrow> bool" where
  "representable q =
     ((\<exists>(M::nat) (E::int). q = of_nat M * 2 powi E \<and> M < 2 ^ 53 \<and> - 1074 \<le> E) \<and> q < 2 powi 1024)"

subsection \<open>Decimal conversions of the C and C++ libraries\<close>

text \<open>
  The source prints and reads doubles through the standard library: \<^verbatim>\<open>ecvt\<close>, and a
  stream with \<^verbatim>\<open>precision(k)\<close> in \<^verbatim>\<open>std::defaultfloat\<close>. The library is modelled by what
  a correctly rounding implementation computes: the \<open>k\<close> significant decimal digits
  nearest to the value (ties to even), and on input the double nearest to the decimal
  number read.
\<close>

text \<open>For \<open>v > 0\<close> and \<open>k \<ge> 1\<close>: the natural number \<open>D\<close> with exactly \<open>k\<close> decimal digits
  and the position \<open>n\<close> of the decimal point such that \<open>D * 10 ^ (n - k)\<close> is \<open>v\<close> rounded to
  \<open>k\<close> significant digits.\<close>

definition decimal_round :: "real \<Rightarrow> nat \<Rightarrow> nat \<times> int" where
  "decimal_round v k =
     (let p = ilog 10 v + 1;
          D = nat (round_half_even (v * 10 powi (int k - p)))
      in if D = 10 ^ k then (10 ^ (k - 1), p + 1) else (D, p))"

text \<open>The decimal digits of a natural number, as characters.\<close>

definition digit_char :: "nat \<Rightarrow> char" where
  "digit_char d = ''0123456789'' ! d"

function decimal :: "nat \<Rightarrow> string" where
  "decimal n = (if n < 10 then [digit_char n] else decimal (n div 10) @ [digit_char (n mod 10)])"
  by pat_completeness auto
termination
  by (relation "measure (\<lambda>n. n)") auto

declare decimal.simps [simp del]

text \<open>\<^verbatim>\<open>ecvt(m, k, &n, &sign)\<close> for a finite double other than zero: the digits, the
  position of the decimal point and the sign flag. Other arguments are outside the
  model (\<open>None\<close>); the source passes none.\<close>

definition ecvt :: "double \<Rightarrow> nat \<Rightarrow> (string \<times> int \<times> bool) option" where
  "ecvt m k =
     (if \<not> is_finite m \<or> is_zero m \<or> k < 1 then None
      else (case decimal_round (magnitude m) k of (D, n) \<Rightarrow> Some (decimal D, n, sign_bit m)))"

text \<open>
  The test of the loop in \<^verbatim>\<open>to_string\<close> for a finite positive \<open>m\<close>: print \<open>m\<close> with \<open>k\<close>
  significant digits, read the text back, and compare. The text only carries the decimal
  number \<open>D * 10 ^ (n - k)\<close> from the output stream to the input stream; reading sets the
  fail bit when the number is beyond the largest double.
\<close>

definition stream_round_trip :: "double \<Rightarrow> nat \<Rightarrow> bool" where
  "stream_round_trip m k =
     (case decimal_round (magnitude m) k of
        (D, n) \<Rightarrow>
          (let t = round_to_double False (of_nat D * 10 powi (n - int k))
           in \<not> isinf t \<and> double_eq t m))"

section \<open>Values\<close>

text \<open>
  \<^verbatim>\<open>value\<close> is a tag \<^verbatim>\<open>type_\<close> with a union of payloads; the model is the datatype of
  the eight kinds, each constructor carrying the payload that is live for its tag. An
  object pointer is the address of the object, a native function is identified by a
  number. (\<^verbatim>\<open>value\<close>, \<^verbatim>\<open>undefined\<close> and \<^verbatim>\<open>null\<close> are names of Isabelle and of HOL:
  the model's names carry the suffix \<open>_t\<close>.)
\<close>

datatype value_type =
  undefined_t | null_t | boolean | number | string | object | reference | native_function

type_synonym object_ptr = nat
type_synonym native_function_type = nat

datatype reference_t = reference_t (base: object_ptr) (property_name: string)

datatype value_t =
    Undefined
  | Null
  | Boolean (boolean_value: bool)
  | Number (number_value: double)
  | String (string_value: string)
  | Object (object_value: object_ptr)
  | Reference (reference_value: reference_t)
  | Native_function (native_function_value: native_function_type)

text \<open>\<^verbatim>\<open>value::type()\<close>.\<close>

fun type_of :: "value_t \<Rightarrow> value_type" where
  "type_of Undefined = undefined_t"
| "type_of Null = null_t"
| "type_of (Boolean b) = boolean"
| "type_of (Number n) = number"
| "type_of (String s) = string"
| "type_of (Object p) = object"
| "type_of (Reference r) = reference"
| "type_of (Native_function f) = native_function"

subsection \<open>Equality\<close>

text \<open>\<^verbatim>\<open>operator==\<close> on values. For two references and for two native functions the
  \<^verbatim>\<open>switch\<close> breaks to \<^verbatim>\<open>NOT_IMPLEMENTED\<close>, which throws.\<close>

definition value_eq :: "value_t \<Rightarrow> value_t \<Rightarrow> error + bool" where
  "value_eq l r =
     (if type_of l \<noteq> type_of r then Inr False
      else
        (case type_of l of
           undefined_t \<Rightarrow> Inr True
         | null_t \<Rightarrow> Inr True
         | boolean \<Rightarrow> Inr (boolean_value l = boolean_value r)
         | number \<Rightarrow>
             (let lv = number_value l; rv = number_value r
              in Inr (double_eq lv rv \<or> (isnan lv \<and> isnan rv)))
         | string \<Rightarrow> Inr (string_value l = string_value r)
         | object \<Rightarrow> Inr (object_value l = object_value r)
         | reference \<Rightarrow> Inl Not_Implemented
         | native_function \<Rightarrow> Inl Not_Implemented))"

subsection \<open>Assignment, move and destruction\<close>

text \<open>
  Assignment works on two objects that may be the same one, so values live in a
  memory: a map from addresses to values. The memory also records, in order, the payloads
  whose destructor has run (strings, object pointers, references and native functions
  have one).
\<close>

record memory =
  cells :: "nat \<Rightarrow> value_t"
  destructed :: "value_t list"

definition has_destructor :: "value_type \<Rightarrow> bool" where
  "has_destructor t = (t = string \<or> t = object \<or> t = reference \<or> t = native_function)"

text \<open>\<^verbatim>\<open>value::destroy\<close>: the destructor of the live payload, then \<^verbatim>\<open>type_ = undefined\<close>.\<close>

definition destroy :: "memory \<Rightarrow> nat \<Rightarrow> memory" where
  "destroy m this =
     m\<lparr>cells := (cells m)(this := Undefined),
       destructed := destructed m @
         (if has_destructor (type_of (cells m this)) then [cells m this] else [])\<rparr>"

text \<open>\<^verbatim>\<open>value::operator=(const value&)\<close>, guarded against self-assignment.\<close>

definition copy_assign :: "memory \<Rightarrow> nat \<Rightarrow> nat \<Rightarrow> memory" where
  "copy_assign m this rhs =
     (if this \<noteq> rhs then
        (let m1 = destroy m this
         in m1\<lparr>cells := (cells m1)(this := cells m1 rhs)\<rparr>)
      else m)"

text \<open>\<^verbatim>\<open>value::operator=(value&&)\<close>: destroy, move the payload of \<^verbatim>\<open>rhs\<close> (as it is after
  the destroy) and take its tag, then set the tag of \<^verbatim>\<open>rhs\<close> to undefined. There is no
  guard against self-assignment.\<close>

definition move_assign :: "memory \<Rightarrow> nat \<Rightarrow> nat \<Rightarrow> memory" where
  "move_assign m this rhs =
     (let m1 = destroy m this;
          m2 = m1\<lparr>cells := (cells m1)(this := cells m1 rhs)\<rparr>
      in m2\<lparr>cells := (cells m2)(rhs := Undefined)\<rparr>)"

text \<open>The constructors \<^verbatim>\<open>value(const value&)\<close> and \<^verbatim>\<open>value(value&&)\<close>: the new object
  at \<open>this\<close> starts with the tag undefined and is then assigned.\<close>

definition copy_construct :: "memory \<Rightarrow> nat \<Rightarrow> nat \<Rightarrow> memory" where
  "copy_construct m this rhs = copy_assign (m\<lparr>cells := (cells m)(this := Undefined)\<rparr>) this rhs"

definition move_construct :: "memory \<Rightarrow> nat \<Rightarrow> nat \<Rightarrow> memory" where
  "move_construct m this rhs = move_assign (m\<lparr>cells := (cells m)(this := Undefined)\<rparr>) this rhs"

subsection \<open>Conversions to integers\<close>

text \<open>\<^verbatim>\<open>to_integer_inner\<close>: \<^verbatim>\<open>(n < 0 ? -1 : 1) * std::floor(std::abs(n))\<close>, the integer
  \<open>-1\<close> or \<open>1\<close> converted to double for the multiplication.\<close>

definition to_integer_inner :: "double \<Rightarrow> double" where
  "to_integer_inner n =
     double_mul (if double_less n double_zero then double_minus_one else double_one)
                (double_floor (double_abs n))"

definition to_integer :: "double \<Rightarrow> double" where
  "to_integer n =
     (if isnan n then double_zero
      else if double_eq n double_zero \<or> isinf n then n
      else to_integer_inner n)"

text \<open>
  \<^verbatim>\<open>to_uint32(double)\<close>. The assertion is a branch of the model; behind it the value of
  \<open>n\<close> is an integer in \<open>[0, 2^32)\<close>, which the cast to \<^verbatim>\<open>uint32_t\<close> converts exactly.
\<close>

definition to_uint32 :: "double \<Rightarrow> error + 32 word" where
  "to_uint32 n =
     (if isnan n \<or> double_eq n double_zero \<or> isinf n then Inr 0
      else
        (let n1 = to_integer_inner n;
             max = double_2_32;
             n2 = double_sub n1 (double_mul max (double_floor (double_div n1 max)))
         in if \<not> (\<not> double_less n2 double_zero \<and> \<not> isnan n2 \<and> double_less n2 max)
            then Inl Assertion_Failed
            else Inr (word_of_int \<lfloor>valof n2\<rfloor>)))"

definition to_int32 :: "double \<Rightarrow> error + 32 word" where
  "to_int32 n = to_uint32 n"

definition to_uint16 :: "double \<Rightarrow> error + 16 word" where
  "to_uint16 n = (case to_uint32 n of Inl e \<Rightarrow> Inl e | Inr w \<Rightarrow> Inr (ucast w))"

subsection \<open>Numbers to strings\<close>

text \<open>\<^verbatim>\<open>do_format_double\<close>: the five cases of the source on the digits \<open>s\<close>, their
  number \<open>k\<close> and the position \<open>n\<close> of the decimal point.\<close>

definition do_format_double :: "double \<Rightarrow> int \<Rightarrow> error + string" where
  "do_format_double m k =
     (if \<not> 1 \<le> k then Inl Assertion_Failed
      else
        (case ecvt m (nat k) of
           None \<Rightarrow> Inl Not_Implemented
         | Some (s, n, sign) \<Rightarrow>
             if sign then Inl Assertion_Failed
             else if k \<le> n \<and> n \<le> 21 then
               Inr (s @ replicate (nat (n - k)) CHR ''0'')
             else if 0 < n \<and> n \<le> 21 then
               Inr (take (nat n) s @ ''.'' @ drop (nat n) s)
             else if - 6 < n \<and> n \<le> 0 then
               Inr (''0.'' @ replicate (nat (- n)) CHR ''0'' @ s)
             else if k = 1 then
               Inr (s @ ''e'' @ (if n - 1 \<ge> 0 then ''+'' else ''-'') @ decimal (nat \<bar>n - 1\<bar>))
             else
               Inr ([hd s] @ ''.'' @ tl s @ ''e'' @ (if n - 1 \<ge> 0 then ''+'' else ''-'') @
                    decimal (nat \<bar>n - 1\<bar>))))"

text \<open>The loop \<^verbatim>\<open>for (int k = 1; k <= 17; ++k)\<close> of \<^verbatim>\<open>to_string\<close>; behind it the source
  asserts false.\<close>

function to_string_loop :: "double \<Rightarrow> nat \<Rightarrow> error + string" where
  "to_string_loop m k =
     (if k \<le> 17 then
        (if stream_round_trip m k then do_format_double m (int k)
         else to_string_loop m (k + 1))
      else Inl Assertion_Failed)"
  by pat_completeness auto
termination
  by (relation "measure (\<lambda>(m, k). 18 - k)") auto

declare to_string_loop.simps [simp del]

text \<open>\<^verbatim>\<open>to_string(double)\<close>. A negative number recurses on \<^verbatim>\<open>-m\<close>; the recursion ends
  because \<^verbatim>\<open>-m\<close> has no sign bit.\<close>

function to_string :: "double \<Rightarrow> error + string" where
  "to_string m =
     (if isnan m then Inr ''NaN''
      else if double_eq m double_zero then Inr ''0''
      else if double_less m double_zero then
        (case to_string (double_neg m) of Inl e \<Rightarrow> Inl e | Inr s \<Rightarrow> Inr (''-'' @ s))
      else if isinf m then Inr ''Infinity''
      else to_string_loop m 1)"
  by pat_completeness auto

section \<open>Properties of the source-position scanner\<close>

lemma calc_loop_done: "end_pos \<le> i \<Longrightarrow> calc_loop t i end_pos st = st"
  by (subst calc_loop.simps) simp

lemma calc_loop_snoc:
  "i \<le> e \<Longrightarrow> calc_loop t i (Suc e) st = position_step (t ! e) (calc_loop t i e st)"
proof (induction "e - i" arbitrary: i st)
  case 0
  then have "i = e" by simp
  then show ?case
    by (simp add: calc_loop.simps [of t e "Suc e"] calc_loop_done)
next
  case (Suc k)
  then have lt: "i < e" and k: "k = e - (i + 1)" and le: "i + 1 \<le> e" by simp_all
  have "calc_loop t i (Suc e) st = calc_loop t (i + 1) (Suc e) (position_step (t ! i) st)"
    using lt by (subst calc_loop.simps) simp
  also have "\<dots> = position_step (t ! e) (calc_loop t (i + 1) e (position_step (t ! i) st))"
    using Suc.hyps(1) [OF k le] .
  also have "calc_loop t (i + 1) e (position_step (t ! i) st) = calc_loop t i e st"
    using lt by (subst (2) calc_loop.simps) simp
  finally show ?case .
qed

lemma interval_empty: "interval t s s = []"
  by (simp add: interval_def)

lemma interval_snoc:
  "s \<le> e \<Longrightarrow> e < length t \<Longrightarrow> interval t s (Suc e) = interval t s e @ [t ! e]"
proof -
  assume a: "s \<le> e" "e < length t"
  then have "Suc e - s = Suc (e - s)" by simp
  moreover have "e - s < length (drop s t)" using a by simp
  moreover have "drop s t ! (e - s) = t ! e" using a by simp
  ultimately show ?thesis
    by (simp add: interval_def take_Suc_conv_app_nth)
qed

text \<open>The two counters and the column after the loop, in closed form.\<close>

lemma calc_loop_counts:
  "s \<le> e \<Longrightarrow> e \<le> length t \<Longrightarrow>
   fst (calc_loop t s e (cr, lf, col)) = cr + int (count_list (interval t s e) CR) \<and>
   fst (snd (calc_loop t s e (cr, lf, col))) = lf + int (count_list (interval t s e) LF)"
proof (induction e)
  case 0
  then show ?case by (simp add: calc_loop_done interval_def)
next
  case (Suc e)
  show ?case
  proof (cases "s = Suc e")
    case True
    then show ?thesis by (simp add: calc_loop_done interval_empty)
  next
    case False
    with Suc.prems have le: "s \<le> e" and lt: "e < length t" by simp_all
    then have ih: "fst (calc_loop t s e (cr, lf, col)) = cr + int (count_list (interval t s e) CR)"
        "fst (snd (calc_loop t s e (cr, lf, col))) = lf + int (count_list (interval t s e) LF)"
      using Suc.IH by simp_all
    obtain a b c where abc: "calc_loop t s e (cr, lf, col) = (a, b, c)"
      by (cases "calc_loop t s e (cr, lf, col)") auto
    show ?thesis
      using ih abc
      by (simp add: calc_loop_snoc [OF le] interval_snoc [OF le lt] position_step_def
          LF_def CR_def TAB_def)
  qed
qed

lemma terminator_counts:
  "count_list cs CR = crlf_pairs cs + lone_crs cs \<and>
   count_list cs LF = crlf_pairs cs + lone_lfs cs \<and>
   line_terminators cs = crlf_pairs cs + lone_crs cs + lone_lfs cs"
proof (induction cs rule: crlf_pairs.induct)
  case 1
  then show ?case by simp
next
  case (2 c)
  then show ?case by (simp add: LF_def CR_def)
next
  case (3 c d cs)
  show ?case
  proof (cases "c = CR \<and> d = LF")
    case True
    with 3 show ?thesis by (simp add: LF_def CR_def)
  next
    case False
    with 3 have "count_list (d # cs) CR = crlf_pairs (d # cs) + lone_crs (d # cs) \<and>
      count_list (d # cs) LF = crlf_pairs (d # cs) + lone_lfs (d # cs) \<and>
      line_terminators (d # cs) = crlf_pairs (d # cs) + lone_crs (d # cs) + lone_lfs (d # cs)"
      by blast
    with False show ?thesis
      by (cases "c = CR"; cases "c = LF") (simp_all add: LF_def CR_def)
  qed
qed

lemma calc_loop_column_snoc:
  "s \<le> e \<Longrightarrow>
   snd (snd (calc_loop t s (Suc e) st)) =
     (let c = snd (snd (calc_loop t s e st)) in
      if t ! e = LF \<or> t ! e = CR then 0
      else if t ! e = TAB then c + (tabstop - (c smod tabstop))
      else c + 1)"
  by (cases "calc_loop t s e st")
     (simp add: calc_loop_snoc position_step_def Let_def LF_def CR_def TAB_def)

lemma next_tab_stop: "0 \<le> (c::int) \<Longrightarrow> c + (8 - (c smod 8)) = 8 * (c div 8 + 1)"
proof -
  assume c: "0 \<le> c"
  have "c smod 8 = c mod 8"
  proof (cases "c = 0")
    case True
    then show ?thesis by (simp add: signed_modulo_int_def)
  next
    case False
    with c have "sgn c = 1" "\<bar>c\<bar> = c" by simp_all
    then show ?thesis by (simp add: signed_modulo_int_def)
  qed
  moreover have "c + (8 - c mod 8) = 8 * (c div 8 + 1)" by presburger
  ultimately show ?thesis by simp
qed

lemma calc_source_position_result:
  assumes "s \<le> e" and "e \<le> length t"
  shows "calc_source_position t s e st =
           Inr \<lparr>line = line st + max (int (count_list (interval t s e) CR))
                                      (int (count_list (interval t s e) LF)),
                column = 1 + snd (snd (calc_loop t s e (line st - 1, line st - 1, column st - 1)))\<rparr>"
proof -
  obtain a b c where abc: "calc_loop t s e (line st - 1, line st - 1, column st - 1) = (a, b, c)"
    by (cases "calc_loop t s e (line st - 1, line st - 1, column st - 1)") auto
  from calc_loop_counts [OF assms, of "line st - 1" "line st - 1" "column st - 1"] abc
  have "a = line st - 1 + int (count_list (interval t s e) CR)"
    and "b = line st - 1 + int (count_list (interval t s e) LF)"
    by simp_all
  then show ?thesis
    using assms abc by (simp add: calc_source_position_def)
qed

text \<open>
  Claim C9, as amended. Over an interval \<open>[s, e)\<close> of the text the scanner succeeds; the
  resulting line is the start line plus the larger of the number of CR and the number of
  LF code units, which is the number of line terminators (LF, CR and CR LF counting one
  each) whenever the interval has no CR without a following LF or no LF without a
  preceding CR. The column is unchanged over an empty interval; otherwise, relative to
  the position computed one code unit earlier, a CR or LF resets it to 1, a tab moves the
  zero-based column to the next multiple of 8, and any other code unit advances it by one.
\<close>

theorem calc_source_position_lines_columns:
  assumes "s \<le> e" and "e \<le> length t"
  shows "\<exists>p. calc_source_position t s e st = Inr p \<and>
           line p = line st + max (int (count_list (interval t s e) CR))
                                  (int (count_list (interval t s e) LF)) \<and>
           (lone_crs (interval t s e) = 0 \<or> lone_lfs (interval t s e) = 0 \<longrightarrow>
              line p = line st + int (line_terminators (interval t s e))) \<and>
           (s = e \<longrightarrow> column p = column st) \<and>
           (s < e \<longrightarrow>
              (\<exists>q. calc_source_position t s (e - 1) st = Inr q \<and>
                 (t ! (e - 1) = LF \<or> t ! (e - 1) = CR \<longrightarrow> column p = 1) \<and>
                 (t ! (e - 1) = TAB \<and> 1 \<le> column q \<longrightarrow>
                    column p - 1 = 8 * ((column q - 1) div 8 + 1)) \<and>
                 (t ! (e - 1) \<noteq> LF \<and> t ! (e - 1) \<noteq> CR \<and> t ! (e - 1) \<noteq> TAB \<longrightarrow>
                    column p = column q + 1)))"
proof -
  let ?init = "(line st - 1, line st - 1, column st - 1)"
  let ?p = "\<lparr>line = line st + max (int (count_list (interval t s e) CR))
                                   (int (count_list (interval t s e) LF)),
             column = 1 + snd (snd (calc_loop t s e ?init))\<rparr>"
  have res: "calc_source_position t s e st = Inr ?p"
    by (rule calc_source_position_result [OF assms])
  have uniform: "line ?p = line st + int (line_terminators (interval t s e))"
    if "lone_crs (interval t s e) = 0 \<or> lone_lfs (interval t s e) = 0"
    using that terminator_counts [of "interval t s e"] by auto
  have empty: "column ?p = column st" if "s = e"
    using that by (simp add: calc_loop_done)
  have step: "\<exists>q. calc_source_position t s (e - 1) st = Inr q \<and>
                 (t ! (e - 1) = LF \<or> t ! (e - 1) = CR \<longrightarrow> column ?p = 1) \<and>
                 (t ! (e - 1) = TAB \<and> 1 \<le> column q \<longrightarrow>
                    column ?p - 1 = 8 * ((column q - 1) div 8 + 1)) \<and>
                 (t ! (e - 1) \<noteq> LF \<and> t ! (e - 1) \<noteq> CR \<and> t ! (e - 1) \<noteq> TAB \<longrightarrow>
                    column ?p = column q + 1)" if lt: "s < e"
  proof -
    from lt assms have le: "s \<le> e - 1" and len: "e - 1 \<le> length t" and e: "e = Suc (e - 1)"
      by simp_all
    let ?q = "\<lparr>line = line st + max (int (count_list (interval t s (e - 1)) CR))
                                     (int (count_list (interval t s (e - 1)) LF)),
               column = 1 + snd (snd (calc_loop t s (e - 1) ?init))\<rparr>"
    have q: "calc_source_position t s (e - 1) st = Inr ?q"
      by (rule calc_source_position_result [OF le len])
    have col: "snd (snd (calc_loop t s e ?init)) =
        (let c = snd (snd (calc_loop t s (e - 1) ?init)) in
         if t ! (e - 1) = LF \<or> t ! (e - 1) = CR then 0
         else if t ! (e - 1) = TAB then c + (tabstop - (c smod tabstop))
         else c + 1)"
      using calc_loop_column_snoc [OF le, of t ?init] e by simp
    have "t ! (e - 1) = LF \<or> t ! (e - 1) = CR \<longrightarrow> column ?p = 1"
      using col by (simp add: Let_def)
    moreover have "t ! (e - 1) = TAB \<and> 1 \<le> column ?q \<longrightarrow>
        column ?p - 1 = 8 * ((column ?q - 1) div 8 + 1)"
      using col next_tab_stop [of "snd (snd (calc_loop t s (e - 1) ?init))"]
      by (simp add: Let_def tabstop_def LF_def CR_def TAB_def)
    moreover have "t ! (e - 1) \<noteq> LF \<and> t ! (e - 1) \<noteq> CR \<and> t ! (e - 1) \<noteq> TAB \<longrightarrow>
        column ?p = column ?q + 1"
      using col by (simp add: Let_def)
    ultimately show ?thesis using q by blast
  qed
  show ?thesis
    using res uniform empty step by (intro exI [of _ ?p]) simp
qed

text \<open>The theorem at the text \<open>a TAB b CR LF TAB\<close>, scanned from line 1, column 1.\<close>

theorem calc_source_position_lines_columns_witness:
  "\<exists>p. calc_source_position [97, 9, 98, 13, 10, 9] 0 6 \<lparr>line = 1, column = 1\<rparr> = Inr p \<and>
       line p = 2 \<and> column p = 9"
  using calc_source_position_lines_columns
    [of 0 6 "[97, 9, 98, 13, 10, 9]" "\<lparr>line = 1, column = 1\<rparr>"]
  by (simp add: interval_def LF_def CR_def TAB_def calc_source_position_def calc_loop.simps
      position_step_def tabstop_def signed_modulo_int_def)

text \<open>
  Claim C9 as stated fails on \<open>a CR b LF c\<close>: the text holds two line terminators,
  so its end would be on line 3, but the scanner answers line 2.
\<close>

theorem calc_source_position_mixed_counterexample:
  "calc_source_position [97, 13, 98, 10, 99] 0 5 \<lparr>line = 1, column = 1\<rparr>
     = Inr \<lparr>line = 2, column = 2\<rparr> \<and>
   1 + int (line_terminators [97, 13, 98, 10, 99]) = 3"
  by (simp add: calc_source_position_def calc_loop.simps position_step_def
      LF_def CR_def TAB_def tabstop_def)

section \<open>The equations of the parsing functions\<close>

text \<open>Each parsing function at depth 0 and at depth \<open>Suc n\<close>: the body of the source
  function over the functions of depth \<open>n\<close>.\<close>

lemma parse_primary_expression_0:
  "parse_primary_expression 0 p = None"
  by (simp add: parse_primary_expression_def)

lemma parse_primary_expression_Suc:
  "parse_primary_expression (Suc n) p =
     (case accept identifier_t p of (idt, p1) \<Rightarrow>
        if is_token idt then ret (identifier_expression (ttext idt)) p1
        else (case accept this_t p1 of (t, p2) \<Rightarrow>
          if is_token t then ret (identifier_expression ''this'') p2
          else (case accept lparen p2 of (t, p3) \<Rightarrow>
            if is_token t then
              pbind (parse_expression n p3) (\<lambda>e p4.
              pbind (Some (expect rparen ''parse_primary_expression'' p4)) (\<lambda>t p5.
              ret e p5))
            else if is_literal (current_token_type p3) then
              (case get_token p3 of (t, p4) \<Rightarrow> ret (literal_expression t) p4)
            else unhandled ''parse_primary_expression'' p3)))"
  unfolding parse_primary_expression_def parse_postfix_expression_def parse_unary_expression_def parse_expression1_def parse_expression1_look_ahead_def parse_assignment_expression_def parse_expression_def parse_argument_list_def parse_argument_list_loop_def parse_member_expression_def parse_member_expression_loop_def parse_left_hand_side_expression_def parse_left_hand_side_expression_loop_def parse_block_def parse_block_loop_def parse_variable_declaration_list_loop_def parse_statement_def parse_function_params_loop_def parse_function_def parse_statement_or_function_declaration_def
  by (simp add: parse_primary_expression_body_def)

lemma parse_postfix_expression_0:
  "parse_postfix_expression 0 p = None"
  by (simp add: parse_postfix_expression_def)

lemma parse_postfix_expression_Suc:
  "parse_postfix_expression (Suc n) p =
     pbind (parse_left_hand_side_expression n p) (\<lambda>lhs p1.
       if line_break_skipped p1 then ret lhs p1
       else
         (let t = current_token_type p1 in
          case accept plusplus p1 of (a, p2) \<Rightarrow>
            if is_token a then ret (postfix_expression t lhs) p2
            else (case accept minusminus p2 of (b, p3) \<Rightarrow>
              if is_token b then ret (postfix_expression t lhs) p3
              else ret lhs p3)))"
  unfolding parse_primary_expression_def parse_postfix_expression_def parse_unary_expression_def parse_expression1_def parse_expression1_look_ahead_def parse_assignment_expression_def parse_expression_def parse_argument_list_def parse_argument_list_loop_def parse_member_expression_def parse_member_expression_loop_def parse_left_hand_side_expression_def parse_left_hand_side_expression_loop_def parse_block_def parse_block_loop_def parse_variable_declaration_list_loop_def parse_statement_def parse_function_params_loop_def parse_function_def parse_statement_or_function_declaration_def
  by (simp add: parse_postfix_expression_body_def)

lemma parse_unary_expression_0:
  "parse_unary_expression 0 p = None"
  by (simp add: parse_unary_expression_def)

lemma parse_unary_expression_Suc:
  "parse_unary_expression (Suc n) p =
     (let t = current_token_type p in
      if t = delete_t \<or> t = void_t \<or> t = typeof_t \<or> t = plusplus \<or> t = minusminus \<or>
         t = plus_t \<or> t = minus_t \<or> t = tilde \<or> t = not_t
      then
        pbind (parse_unary_expression n (snd (accept t p))) (\<lambda>e p1.
        ret (prefix_expression t e) p1)
      else parse_postfix_expression n p)"
  unfolding parse_primary_expression_def parse_postfix_expression_def parse_unary_expression_def parse_expression1_def parse_expression1_look_ahead_def parse_assignment_expression_def parse_expression_def parse_argument_list_def parse_argument_list_loop_def parse_member_expression_def parse_member_expression_loop_def parse_left_hand_side_expression_def parse_left_hand_side_expression_loop_def parse_block_def parse_block_loop_def parse_variable_declaration_list_loop_def parse_statement_def parse_function_params_loop_def parse_function_def parse_statement_or_function_declaration_def
  by (simp add: parse_unary_expression_body_def)

lemma parse_expression1_0:
  "parse_expression1 0 lhs outer_precedence p = None"
  by (simp add: parse_expression1_def)

lemma parse_expression1_Suc:
  "parse_expression1 (Suc n) lhs outer_precedence p =
     (let op = current_token_type p;
          precedence = operator_precedence op
      in
      if precedence > outer_precedence then ret lhs p
      else
        (let p1 = snd (get_token p) in
         if op = question then
           pbind (parse_assignment_expression n p1) (\<lambda>l p2.
           pbind (Some (expect colon ''parse_expression1'' p2)) (\<lambda>t p3.
           pbind (parse_assignment_expression n p3) (\<lambda>r p4.
           parse_expression1 n (conditional_expression lhs l r) outer_precedence p4)))
         else
           pbind (parse_unary_expression n p1) (\<lambda>rhs p2.
           pbind (parse_expression1_look_ahead n rhs precedence p2) (\<lambda>rhs' p3.
           parse_expression1 n (binary_expression op lhs rhs') outer_precedence p3))))"
  unfolding parse_primary_expression_def parse_postfix_expression_def parse_unary_expression_def parse_expression1_def parse_expression1_look_ahead_def parse_assignment_expression_def parse_expression_def parse_argument_list_def parse_argument_list_loop_def parse_member_expression_def parse_member_expression_loop_def parse_left_hand_side_expression_def parse_left_hand_side_expression_loop_def parse_block_def parse_block_loop_def parse_variable_declaration_list_loop_def parse_statement_def parse_function_params_loop_def parse_function_def parse_statement_or_function_declaration_def
  by (simp add: parse_expression1_body_def)

lemma parse_expression1_look_ahead_0:
  "parse_expression1_look_ahead 0 rhs precedence p = None"
  by (simp add: parse_expression1_look_ahead_def)

lemma parse_expression1_look_ahead_Suc:
  "parse_expression1_look_ahead (Suc n) rhs precedence p =
     (let look_ahead = current_token_type p;
          look_ahead_precedence = operator_precedence look_ahead
      in
      if look_ahead_precedence > precedence \<or>
         (look_ahead_precedence = precedence \<and> \<not> is_right_to_left look_ahead)
      then ret rhs p
      else
        pbind (parse_expression1 n rhs look_ahead_precedence p) (\<lambda>rhs' p1.
        parse_expression1_look_ahead n rhs' precedence p1))"
  unfolding parse_primary_expression_def parse_postfix_expression_def parse_unary_expression_def parse_expression1_def parse_expression1_look_ahead_def parse_assignment_expression_def parse_expression_def parse_argument_list_def parse_argument_list_loop_def parse_member_expression_def parse_member_expression_loop_def parse_left_hand_side_expression_def parse_left_hand_side_expression_loop_def parse_block_def parse_block_loop_def parse_variable_declaration_list_loop_def parse_statement_def parse_function_params_loop_def parse_function_def parse_statement_or_function_declaration_def
  by (simp add: parse_expression1_look_ahead_body_def)

lemma parse_assignment_expression_0:
  "parse_assignment_expression 0 p = None"
  by (simp add: parse_assignment_expression_def)

lemma parse_assignment_expression_Suc:
  "parse_assignment_expression (Suc n) p =
     pbind (parse_unary_expression n p) (\<lambda>lhs p1.
     parse_expression1 n lhs assignment_precedence p1)"
  unfolding parse_primary_expression_def parse_postfix_expression_def parse_unary_expression_def parse_expression1_def parse_expression1_look_ahead_def parse_assignment_expression_def parse_expression_def parse_argument_list_def parse_argument_list_loop_def parse_member_expression_def parse_member_expression_loop_def parse_left_hand_side_expression_def parse_left_hand_side_expression_loop_def parse_block_def parse_block_loop_def parse_variable_declaration_list_loop_def parse_statement_def parse_function_params_loop_def parse_function_def parse_statement_or_function_declaration_def
  by (simp add: parse_assignment_expression_body_def)

lemma parse_expression_0:
  "parse_expression 0 p = None"
  by (simp add: parse_expression_def)

lemma parse_expression_Suc:
  "parse_expression (Suc n) p =
     pbind (parse_assignment_expression n p) (\<lambda>lhs p1.
     parse_expression1 n lhs comma_precedence p1)"
  unfolding parse_primary_expression_def parse_postfix_expression_def parse_unary_expression_def parse_expression1_def parse_expression1_look_ahead_def parse_assignment_expression_def parse_expression_def parse_argument_list_def parse_argument_list_loop_def parse_member_expression_def parse_member_expression_loop_def parse_left_hand_side_expression_def parse_left_hand_side_expression_loop_def parse_block_def parse_block_loop_def parse_variable_declaration_list_loop_def parse_statement_def parse_function_params_loop_def parse_function_def parse_statement_or_function_declaration_def
  by (simp add: parse_expression_body_def)

lemma parse_argument_list_0:
  "parse_argument_list 0 p = None"
  by (simp add: parse_argument_list_def)

lemma parse_argument_list_Suc:
  "parse_argument_list (Suc n) p =
     pbind (Some (expect lparen ''parse_argument_list'' p)) (\<lambda>t p1.
       case accept rparen p1 of (a, p2) \<Rightarrow>
         if \<not> is_token a then
           pbind (parse_argument_list_loop n [] p2) (\<lambda>l p3.
           pbind (Some (expect rparen ''parse_argument_list'' p3)) (\<lambda>t p4.
           ret l p4))
         else ret [] p2)"
  unfolding parse_primary_expression_def parse_postfix_expression_def parse_unary_expression_def parse_expression1_def parse_expression1_look_ahead_def parse_assignment_expression_def parse_expression_def parse_argument_list_def parse_argument_list_loop_def parse_member_expression_def parse_member_expression_loop_def parse_left_hand_side_expression_def parse_left_hand_side_expression_loop_def parse_block_def parse_block_loop_def parse_variable_declaration_list_loop_def parse_statement_def parse_function_params_loop_def parse_function_def parse_statement_or_function_declaration_def
  by (simp add: parse_argument_list_body_def)

lemma parse_argument_list_loop_0:
  "parse_argument_list_loop 0 l p = None"
  by (simp add: parse_argument_list_loop_def)

lemma parse_argument_list_loop_Suc:
  "parse_argument_list_loop (Suc n) l p =
     pbind (parse_assignment_expression n p) (\<lambda>e p1.
       case accept comma p1 of (a, p2) \<Rightarrow>
         if is_token a then parse_argument_list_loop n (l @ [e]) p2
         else ret (l @ [e]) p2)"
  unfolding parse_primary_expression_def parse_postfix_expression_def parse_unary_expression_def parse_expression1_def parse_expression1_look_ahead_def parse_assignment_expression_def parse_expression_def parse_argument_list_def parse_argument_list_loop_def parse_member_expression_def parse_member_expression_loop_def parse_left_hand_side_expression_def parse_left_hand_side_expression_loop_def parse_block_def parse_block_loop_def parse_variable_declaration_list_loop_def parse_statement_def parse_function_params_loop_def parse_function_def parse_statement_or_function_declaration_def
  by (simp add: parse_argument_list_loop_body_def)

lemma parse_member_expression_0:
  "parse_member_expression 0 p = None"
  by (simp add: parse_member_expression_def)

lemma parse_member_expression_Suc:
  "parse_member_expression (Suc n) p =
     (case accept new_t p of (a, p1) \<Rightarrow>
        if is_token a then
          pbind (parse_member_expression n p1) (\<lambda>e p2.
          pbind (if current_token_type p2 = lparen
                 then pbind (parse_argument_list n p2) (\<lambda>args p3. ret (call_expression e args) p3)
                 else ret e p2) (\<lambda>e' p3.
          parse_member_expression_loop n (prefix_expression new_t e') p3))
        else
          pbind (parse_primary_expression n p1) (\<lambda>me p2.
          parse_member_expression_loop n me p2))"
  unfolding parse_primary_expression_def parse_postfix_expression_def parse_unary_expression_def parse_expression1_def parse_expression1_look_ahead_def parse_assignment_expression_def parse_expression_def parse_argument_list_def parse_argument_list_loop_def parse_member_expression_def parse_member_expression_loop_def parse_left_hand_side_expression_def parse_left_hand_side_expression_loop_def parse_block_def parse_block_loop_def parse_variable_declaration_list_loop_def parse_statement_def parse_function_params_loop_def parse_function_def parse_statement_or_function_declaration_def
  by (simp add: parse_member_expression_body_def)

lemma parse_member_expression_loop_0:
  "parse_member_expression_loop 0 me p = None"
  by (simp add: parse_member_expression_loop_def)

lemma parse_member_expression_loop_Suc:
  "parse_member_expression_loop (Suc n) me p =
     (case accept lbracket p of (a, p1) \<Rightarrow>
        if is_token a then
          pbind (parse_expression n p1) (\<lambda>e p2.
          pbind (Some (expect rbracket ''parse_member_expression'' p2)) (\<lambda>t p3.
          parse_member_expression_loop n (binary_expression lbracket me e) p3))
        else (case accept dot p1 of (b, p2) \<Rightarrow>
          if is_token b then
            pbind (Some (expect identifier_t ''parse_member_expression'' p2)) (\<lambda>idt p3.
            parse_member_expression_loop n
              (binary_expression dot me (literal_expression (token string_literal (ttext idt)))) p3)
          else ret me p2))"
  unfolding parse_primary_expression_def parse_postfix_expression_def parse_unary_expression_def parse_expression1_def parse_expression1_look_ahead_def parse_assignment_expression_def parse_expression_def parse_argument_list_def parse_argument_list_loop_def parse_member_expression_def parse_member_expression_loop_def parse_left_hand_side_expression_def parse_left_hand_side_expression_loop_def parse_block_def parse_block_loop_def parse_variable_declaration_list_loop_def parse_statement_def parse_function_params_loop_def parse_function_def parse_statement_or_function_declaration_def
  by (simp add: parse_member_expression_loop_body_def)

lemma parse_left_hand_side_expression_0:
  "parse_left_hand_side_expression 0 p = None"
  by (simp add: parse_left_hand_side_expression_def)

lemma parse_left_hand_side_expression_Suc:
  "parse_left_hand_side_expression (Suc n) p =
     pbind (parse_member_expression n p) (\<lambda>m p1.
     parse_left_hand_side_expression_loop n m p1)"
  unfolding parse_primary_expression_def parse_postfix_expression_def parse_unary_expression_def parse_expression1_def parse_expression1_look_ahead_def parse_assignment_expression_def parse_expression_def parse_argument_list_def parse_argument_list_loop_def parse_member_expression_def parse_member_expression_loop_def parse_left_hand_side_expression_def parse_left_hand_side_expression_loop_def parse_block_def parse_block_loop_def parse_variable_declaration_list_loop_def parse_statement_def parse_function_params_loop_def parse_function_def parse_statement_or_function_declaration_def
  by (simp add: parse_left_hand_side_expression_body_def)

lemma parse_left_hand_side_expression_loop_0:
  "parse_left_hand_side_expression_loop 0 m p = None"
  by (simp add: parse_left_hand_side_expression_loop_def)

lemma parse_left_hand_side_expression_loop_Suc:
  "parse_left_hand_side_expression_loop (Suc n) m p =
     (if current_token_type p = lparen then
        pbind (parse_argument_list n p) (\<lambda>args p1.
        parse_left_hand_side_expression_loop n (call_expression m args) p1)
      else (case accept lbracket p of (a, p1) \<Rightarrow>
        if is_token a then
          pbind (parse_expression n p1) (\<lambda>e p2.
          pbind (Some (expect rbracket ''parse_left_hand_side_expression'' p2)) (\<lambda>t p3.
          parse_left_hand_side_expression_loop n (binary_expression lbracket m e) p3))
        else (case accept dot p1 of (b, p2) \<Rightarrow>
          if is_token b then
            pbind (Some (expect identifier_t ''parse_left_hand_side_expression'' p2)) (\<lambda>idt p3.
            parse_left_hand_side_expression_loop n
              (binary_expression dot m (literal_expression (token string_literal (ttext idt)))) p3)
          else ret m p2)))"
  unfolding parse_primary_expression_def parse_postfix_expression_def parse_unary_expression_def parse_expression1_def parse_expression1_look_ahead_def parse_assignment_expression_def parse_expression_def parse_argument_list_def parse_argument_list_loop_def parse_member_expression_def parse_member_expression_loop_def parse_left_hand_side_expression_def parse_left_hand_side_expression_loop_def parse_block_def parse_block_loop_def parse_variable_declaration_list_loop_def parse_statement_def parse_function_params_loop_def parse_function_def parse_statement_or_function_declaration_def
  by (simp add: parse_left_hand_side_expression_loop_body_def)

lemma parse_block_0:
  "parse_block 0 p = None"
  by (simp add: parse_block_def)

lemma parse_block_Suc:
  "parse_block (Suc n) p =
     pbind (Some (expect lbrace ''parse_block'' p)) (\<lambda>t p1.
     pbind (parse_block_loop n [] p1) (\<lambda>l p2.
     ret (block_statement l) p2))"
  unfolding parse_primary_expression_def parse_postfix_expression_def parse_unary_expression_def parse_expression1_def parse_expression1_look_ahead_def parse_assignment_expression_def parse_expression_def parse_argument_list_def parse_argument_list_loop_def parse_member_expression_def parse_member_expression_loop_def parse_left_hand_side_expression_def parse_left_hand_side_expression_loop_def parse_block_def parse_block_loop_def parse_variable_declaration_list_loop_def parse_statement_def parse_function_params_loop_def parse_function_def parse_statement_or_function_declaration_def
  by (simp add: parse_block_body_def)

lemma parse_block_loop_0:
  "parse_block_loop 0 l p = None"
  by (simp add: parse_block_loop_def)

lemma parse_block_loop_Suc:
  "parse_block_loop (Suc n) l p =
     (case accept rbrace p of (a, p1) \<Rightarrow>
        if \<not> is_token a then
          pbind (parse_statement_or_function_declaration n p1) (\<lambda>s p2.
          parse_block_loop n (l @ [s]) p2)
        else ret l p1)"
  unfolding parse_primary_expression_def parse_postfix_expression_def parse_unary_expression_def parse_expression1_def parse_expression1_look_ahead_def parse_assignment_expression_def parse_expression_def parse_argument_list_def parse_argument_list_loop_def parse_member_expression_def parse_member_expression_loop_def parse_left_hand_side_expression_def parse_left_hand_side_expression_loop_def parse_block_def parse_block_loop_def parse_variable_declaration_list_loop_def parse_statement_def parse_function_params_loop_def parse_function_def parse_statement_or_function_declaration_def
  by (simp add: parse_block_loop_body_def)

lemma parse_variable_declaration_list_loop_0:
  "parse_variable_declaration_list_loop 0 l p = None"
  by (simp add: parse_variable_declaration_list_loop_def)

lemma parse_variable_declaration_list_loop_Suc:
  "parse_variable_declaration_list_loop (Suc n) l p =
     pbind (Some (expect identifier_t ''parse_variable_declaration_list'' p)) (\<lambda>idt p1.
     pbind (case accept equal_t p1 of (a, p2) \<Rightarrow>
              if is_token a then
                pbind (parse_assignment_expression n p2) (\<lambda>e p3. ret (Some e) p3)
              else ret None p2) (\<lambda>init p3.
       case accept comma p3 of (b, p4) \<Rightarrow>
         if is_token b
         then parse_variable_declaration_list_loop n (l @ [declaration_t (ttext idt) init]) p4
         else ret (l @ [declaration_t (ttext idt) init]) p4))"
  unfolding parse_primary_expression_def parse_postfix_expression_def parse_unary_expression_def parse_expression1_def parse_expression1_look_ahead_def parse_assignment_expression_def parse_expression_def parse_argument_list_def parse_argument_list_loop_def parse_member_expression_def parse_member_expression_loop_def parse_left_hand_side_expression_def parse_left_hand_side_expression_loop_def parse_block_def parse_block_loop_def parse_variable_declaration_list_loop_def parse_statement_def parse_function_params_loop_def parse_function_def parse_statement_or_function_declaration_def
  by (simp add: parse_variable_declaration_list_loop_body_def)

lemma parse_statement_0:
  "parse_statement 0 p = None"
  by (simp add: parse_statement_def)

lemma parse_statement_Suc:
  "parse_statement (Suc n) p =
     (if current_token_type p = lbrace then parse_block n p
      else (case accept var_t p of (a1, p1) \<Rightarrow>
      if is_token a1 then
        pbind (parse_variable_declaration_list_loop n [] p1) (\<lambda>dl p2.
        pbind (Some (expect_semicolon_allow_insertion ''parse_statement'' p2)) (\<lambda>u p3.
        ret (variable_statement dl) p3))
      else if current_token_type p1 = semicolon then
        ret empty_statement (snd (get_token p1))
      else (case accept if_t p1 of (a2, p2) \<Rightarrow>
      if is_token a2 then
        pbind (Some (expect lparen ''parse_statement'' p2)) (\<lambda>t p3.
        pbind (parse_expression n p3) (\<lambda>cond p4.
        pbind (Some (expect rparen ''parse_statement'' p4)) (\<lambda>t p5.
        pbind (parse_statement n p5) (\<lambda>if_s p6.
          case accept else_t (snd (accept semicolon p6)) of (b, p7) \<Rightarrow>
            if is_token b then
              pbind (parse_statement n p7) (\<lambda>else_s p8.
              ret (if_statement cond if_s (Some else_s)) p8)
            else ret (if_statement cond if_s None) p7))))
      else (case accept while_t p2 of (a3, p3) \<Rightarrow>
      if is_token a3 then
        pbind (Some (expect lparen ''parse_statement'' p3)) (\<lambda>t p4.
        pbind (parse_expression n p4) (\<lambda>cond p5.
        pbind (Some (expect rparen ''parse_statement'' p5)) (\<lambda>t p6.
        pbind (parse_statement n p6) (\<lambda>s p7.
        ret (while_statement cond s) p7))))
      else (case accept for_t p3 of (a4, p4) \<Rightarrow>
      if is_token a4 then
        pbind (Some (expect lparen ''parse_statement'' p4)) (\<lambda>t p5.
          case accept semicolon p5 of (b1, p6) \<Rightarrow>
            let rest = (\<lambda>init q.
              pbind (case accept semicolon q of (b2, q1) \<Rightarrow>
                       if \<not> is_token b2 then
                         pbind (parse_expression n q1) (\<lambda>c q2.
                         pbind (Some (expect semicolon ''parse_statement'' q2)) (\<lambda>t q3.
                         ret (Some c) q3))
                       else ret None q1) (\<lambda>cond q4.
              pbind (case accept rparen q4 of (b3, q5) \<Rightarrow>
                       if \<not> is_token b3 then
                         pbind (parse_expression n q5) (\<lambda>i q6.
                         pbind (Some (expect rparen ''parse_statement'' q6)) (\<lambda>t q7.
                         ret (Some i) q7))
                       else ret None q5) (\<lambda>iter q8.
              pbind (parse_statement n q8) (\<lambda>s q9.
              ret (for_statement init cond iter s) q9))))
            in
            if \<not> is_token b1 then
              pbind (case accept var_t p6 of (b4, p7) \<Rightarrow>
                       if is_token b4 then
                         pbind (parse_variable_declaration_list_loop n [] p7) (\<lambda>dl p8.
                         ret (variable_statement dl) p8)
                       else
                         pbind (parse_expression n p7) (\<lambda>e p8.
                         ret (expression_statement e) p8)) (\<lambda>init p9.
                case accept in_t p9 of (b5, p10) \<Rightarrow>
                  if is_token b5 then
                    (if (case init of variable_statement dl \<Rightarrow> length dl \<noteq> 1 | _ \<Rightarrow> False)
                     then unhandled ''parse_statement'' p10
                     else
                       pbind (parse_expression n p10) (\<lambda>e p11.
                       pbind (Some (expect rparen ''parse_statement'' p11)) (\<lambda>t p12.
                       pbind (parse_statement n p12) (\<lambda>s p13.
                       ret (for_in_statement init e s) p13))))
                  else
                    pbind (Some (expect semicolon ''parse_statement'' p10)) (\<lambda>t p11.
                    rest (Some init) p11))
            else rest None p6)
      else (case accept continue_t p4 of (a5, p5) \<Rightarrow>
      if is_token a5 then
        pbind (Some (expect_semicolon_allow_insertion ''parse_statement'' p5)) (\<lambda>u p6.
        ret continue_statement p6)
      else (case accept break_t p5 of (a6, p6) \<Rightarrow>
      if is_token a6 then
        pbind (Some (expect_semicolon_allow_insertion ''parse_statement'' p6)) (\<lambda>u p7.
        ret break_statement p7)
      else (case accept return_t p6 of (a7, p7) \<Rightarrow>
      if is_token a7 then
        pbind (if \<not> line_break_skipped p7 \<and> current_token_type p7 \<noteq> semicolon
               then pbind (parse_expression n p7) (\<lambda>e p8. ret (Some e) p8)
               else ret None p7) (\<lambda>e p9.
        pbind (Some (expect_semicolon_allow_insertion ''parse_statement'' p9)) (\<lambda>u p10.
        ret (return_statement e) p10))
      else (case accept with_t p7 of (a8, p8) \<Rightarrow>
      if is_token a8 then
        pbind (Some (expect lparen ''parse_statement'' p8)) (\<lambda>t p9.
        pbind (parse_expression n p9) (\<lambda>e p10.
        pbind (Some (expect rparen ''parse_statement'' p10)) (\<lambda>t p11.
        pbind (parse_statement n p11) (\<lambda>s p12.
        ret (with_statement e s) p12))))
      else
        pbind (parse_expression n p8) (\<lambda>e p9.
        pbind (Some (expect_semicolon_allow_insertion ''parse_statement'' p9)) (\<lambda>u p10.
        ret (expression_statement e) p10)))))))))))"
  unfolding parse_primary_expression_def parse_postfix_expression_def parse_unary_expression_def parse_expression1_def parse_expression1_look_ahead_def parse_assignment_expression_def parse_expression_def parse_argument_list_def parse_argument_list_loop_def parse_member_expression_def parse_member_expression_loop_def parse_left_hand_side_expression_def parse_left_hand_side_expression_loop_def parse_block_def parse_block_loop_def parse_variable_declaration_list_loop_def parse_statement_def parse_function_params_loop_def parse_function_def parse_statement_or_function_declaration_def
  by (simp add: parse_statement_body_def)

lemma parse_function_params_loop_0:
  "parse_function_params_loop 0 params p = None"
  by (simp add: parse_function_params_loop_def)

lemma parse_function_params_loop_Suc:
  "parse_function_params_loop (Suc n) params p =
     pbind (Some (expect identifier_t ''parse_function'' p)) (\<lambda>idt p1.
       case accept comma p1 of (a, p2) \<Rightarrow>
         if is_token a then parse_function_params_loop n (params @ [ttext idt]) p2
         else ret (params @ [ttext idt]) p2)"
  unfolding parse_primary_expression_def parse_postfix_expression_def parse_unary_expression_def parse_expression1_def parse_expression1_look_ahead_def parse_assignment_expression_def parse_expression_def parse_argument_list_def parse_argument_list_loop_def parse_member_expression_def parse_member_expression_loop_def parse_left_hand_side_expression_def parse_left_hand_side_expression_loop_def parse_block_def parse_block_loop_def parse_variable_declaration_list_loop_def parse_statement_def parse_function_params_loop_def parse_function_def parse_statement_or_function_declaration_def
  by (simp add: parse_function_params_loop_body_def)

lemma parse_function_0:
  "parse_function 0 p = None"
  by (simp add: parse_function_def)

lemma parse_function_Suc:
  "parse_function (Suc n) p =
     pbind (Some (expect function_t ''parse_function'' p)) (\<lambda>t p1.
     pbind (Some (expect identifier_t ''parse_function'' p1)) (\<lambda>idt p2.
     pbind (Some (expect lparen ''parse_function'' p2)) (\<lambda>t p3.
     pbind (case accept rparen p3 of (a, p4) \<Rightarrow>
              if \<not> is_token a then
                pbind (parse_function_params_loop n [] p4) (\<lambda>params p5.
                pbind (Some (expect rparen ''parse_function'' p5)) (\<lambda>t p6.
                ret params p6))
              else ret [] p4) (\<lambda>params p7.
     pbind (parse_block n p7) (\<lambda>block p8.
     ret (function_definition (ttext idt) params block) p8)))))"
  unfolding parse_primary_expression_def parse_postfix_expression_def parse_unary_expression_def parse_expression1_def parse_expression1_look_ahead_def parse_assignment_expression_def parse_expression_def parse_argument_list_def parse_argument_list_loop_def parse_member_expression_def parse_member_expression_loop_def parse_left_hand_side_expression_def parse_left_hand_side_expression_loop_def parse_block_def parse_block_loop_def parse_variable_declaration_list_loop_def parse_statement_def parse_function_params_loop_def parse_function_def parse_statement_or_function_declaration_def
  by (simp add: parse_function_body_def)

lemma parse_statement_or_function_declaration_0:
  "parse_statement_or_function_declaration 0 p = None"
  by (simp add: parse_statement_or_function_declaration_def)

lemma parse_statement_or_function_declaration_Suc:
  "parse_statement_or_function_declaration (Suc n) p =
     (let p1 = skip_whitespace p in
      if current_token_type p1 = function_t then parse_function n p1
      else parse_statement n p1)"
  unfolding parse_primary_expression_def parse_postfix_expression_def parse_unary_expression_def parse_expression1_def parse_expression1_look_ahead_def parse_assignment_expression_def parse_expression_def parse_argument_list_def parse_argument_list_loop_def parse_member_expression_def parse_member_expression_loop_def parse_left_hand_side_expression_def parse_left_hand_side_expression_loop_def parse_block_def parse_block_loop_def parse_variable_declaration_list_loop_def parse_statement_def parse_function_params_loop_def parse_function_def parse_statement_or_function_declaration_def
  by (simp add: parse_statement_or_function_declaration_body_def)

section \<open>Evaluating the parser\<close>

lemma pbind_None: "pbind None f = None"
  by (simp add: pbind_def)

lemma pbind_Inl: "pbind (Some (Inl e)) f = Some (Inl e)"
  by (simp add: pbind_def)

lemma pbind_Inr: "pbind (Some (Inr (x, p))) f = f x p"
  by (simp add: pbind_def)

text \<open>The continuation of a sequencing is only looked at once its first part has a value.\<close>

lemma pbind_weak_cong: "r = r' \<Longrightarrow> pbind r f = pbind r' f"
  by simp

lemma accept_other: "current_token_type p \<noteq> tt \<Longrightarrow> accept tt p = (eof_token, p)"
  by (simp add: accept_def)

lemma accept_same: "current_token_type p = tt \<Longrightarrow> accept tt p = get_token p"
  by (simp add: accept_def)

lemma fst_get_token: "fst (get_token p) = current_token p"
  by (simp add: get_token_def Let_def)

lemmas parser_eval =
  parse_def new_parser_def parse_loop.simps
  parse_primary_expression_Suc parse_postfix_expression_Suc parse_unary_expression_Suc
  parse_expression1_Suc parse_expression1_look_ahead_Suc parse_assignment_expression_Suc
  parse_expression_Suc parse_argument_list_Suc parse_argument_list_loop_Suc
  parse_member_expression_Suc parse_member_expression_loop_Suc
  parse_left_hand_side_expression_Suc parse_left_hand_side_expression_loop_Suc
  parse_block_Suc parse_block_loop_Suc parse_variable_declaration_list_loop_Suc
  parse_statement_Suc parse_function_params_loop_Suc parse_function_Suc
  parse_statement_or_function_declaration_Suc
  accept_def get_token_def current_token_def current_token_type_def next_token_def
  skip_whitespace_def expect_def expect_semicolon_allow_insertion_def
  pbind_None pbind_Inl pbind_Inr ret_def unhandled_def is_token_def is_literal_def
  eof_token_def is_right_to_left_def assignment_precedence_def comma_precedence_def
  Let_def numeral_eq_Suc

section \<open>Operator precedence and associativity\<close>









section \<open>Automatic semicolon insertion\<close>

















section \<open>Line terminators before a postfix operator and after return\<close>

lemma postfix_suppressed:
  "parse_left_hand_side_expression n p = Some (Inr (lhs, p1)) \<Longrightarrow> line_break_skipped p1 \<Longrightarrow>
   parse_postfix_expression (Suc n) p = Some (Inr (lhs, p1))"
  by (simp add: parse_postfix_expression_Suc pbind_Inr ret_def)

lemma postfix_applied:
  assumes "parse_left_hand_side_expression n p = Some (Inr (lhs, p1))"
    and "\<not> line_break_skipped p1"
    and "current_token_type p1 = plusplus \<or> current_token_type p1 = minusminus"
  shows "parse_postfix_expression (Suc n) p =
     Some (Inr (postfix_expression (current_token_type p1) lhs, snd (get_token p1)))"
proof -
  obtain t p2 where g: "get_token p1 = (t, p2)" by (cases "get_token p1") auto
  then have t: "ttype t = current_token_type p1"
    using fst_get_token [of p1] by (simp add: current_token_type_def)
  from assms(3) show ?thesis
  proof
    assume "current_token_type p1 = plusplus"
    then show ?thesis
      using assms(1,2) g t
      by (simp add: parse_postfix_expression_Suc pbind_Inr ret_def accept_same is_token_def)
  next
    assume "current_token_type p1 = minusminus"
    then show ?thesis
      using assms(1,2) g t
      by (simp add: parse_postfix_expression_Suc pbind_Inr ret_def accept_same accept_other
          is_token_def eof_token_def)
  qed
qed

lemma return_suppressed:
  "current_token_type p = return_t \<Longrightarrow> line_break_skipped (snd (get_token p)) \<Longrightarrow>
   parse_statement (Suc n) p =
     Some (Inr (return_statement None, snd (accept semicolon (snd (get_token p)))))"
  by (simp add: parse_statement_Suc accept_other accept_same pbind_Inr ret_def is_token_def
      eof_token_def expect_semicolon_allow_insertion_def split_beta fst_get_token
      current_token_type_def [symmetric])

text \<open>
  Claim C8. When a line terminator was skipped after the operand, the postfix
  production returns the operand and leaves the parser where the operand ended, with the
  \<open>++\<close> or \<open>--\<close> still the current token; without one, the operator is consumed into a
  postfix expression. When a line terminator follows the \<^verbatim>\<open>return\<close> keyword, the
  statement is a return without expression. So \<open>return LT 1\<close> is a bare return followed
  by the expression statement \<open>1\<close>, \<open>a LT ++b\<close> is the two statements \<open>a\<close> and \<open>++b\<close>, and
  \<open>a++ LT b\<close> is \<open>a++\<close> followed by \<open>b\<close> (LT a line terminator token).
\<close>

theorem line_terminator_suppresses:
  "(\<forall>n p lhs p1.
      parse_left_hand_side_expression n p = Some (Inr (lhs, p1)) \<and> line_break_skipped p1 \<longrightarrow>
      parse_postfix_expression (Suc n) p = Some (Inr (lhs, p1))) \<and>
   (\<forall>n p lhs p1.
      parse_left_hand_side_expression n p = Some (Inr (lhs, p1)) \<and> \<not> line_break_skipped p1 \<and>
      (current_token_type p1 = plusplus \<or> current_token_type p1 = minusminus) \<longrightarrow>
      parse_postfix_expression (Suc n) p =
        Some (Inr (postfix_expression (current_token_type p1) lhs, snd (get_token p1)))) \<and>
   (\<forall>n p.
      current_token_type p = return_t \<and> line_break_skipped (snd (get_token p)) \<longrightarrow>
      parse_statement (Suc n) p =
        Some (Inr (return_statement None, snd (accept semicolon (snd (get_token p)))))) \<and>
   parse 30 [token return_t ''return'', token line_terminator [CHR 0x0A],
             token numeric_literal ''1'']
     = Some (Inr (block_statement [return_statement None,
          expression_statement (literal_expression (token numeric_literal ''1''))])) \<and>
   parse 30 [token identifier_t ''a'', token line_terminator [CHR 0x0A], token plusplus ''++'',
             token identifier_t ''b'']
     = Some (Inr (block_statement [expression_statement (identifier_expression ''a''),
          expression_statement (prefix_expression plusplus (identifier_expression ''b''))])) \<and>
   parse 30 [token identifier_t ''a'', token plusplus ''++'', token line_terminator [CHR 0x0A],
             token identifier_t ''b'']
     = Some (Inr (block_statement
          [expression_statement (postfix_expression plusplus (identifier_expression ''a'')),
           expression_statement (identifier_expression ''b'')]))"
proof -
  have e1: "parse 30 [token return_t ''return'', token line_terminator [CHR 0x0A],
             token numeric_literal ''1'']
     = Some (Inr (block_statement [return_statement None,
          expression_statement (literal_expression (token numeric_literal ''1''))]))"
    by (simp add: parser_eval cong: pbind_weak_cong prod.case_cong_weak)
  have e2: "parse 30 [token identifier_t ''a'', token line_terminator [CHR 0x0A],
             token plusplus ''++'', token identifier_t ''b'']
     = Some (Inr (block_statement [expression_statement (identifier_expression ''a''),
          expression_statement (prefix_expression plusplus (identifier_expression ''b''))]))"
    by (simp add: parser_eval cong: pbind_weak_cong prod.case_cong_weak)
  have e3: "parse 30 [token identifier_t ''a'', token plusplus ''++'',
             token line_terminator [CHR 0x0A], token identifier_t ''b'']
     = Some (Inr (block_statement
          [expression_statement (postfix_expression plusplus (identifier_expression ''a'')),
           expression_statement (identifier_expression ''b'')]))"
    by (simp add: parser_eval cong: pbind_weak_cong prod.case_cong_weak)
  have a: "\<forall>n p lhs p1.
      parse_left_hand_side_expression n p = Some (Inr (lhs, p1)) \<and> line_break_skipped p1 \<longrightarrow>
      parse_postfix_expression (Suc n) p = Some (Inr (lhs, p1))"
    using postfix_suppressed by blast
  have b: "\<forall>n p lhs p1.
      parse_left_hand_side_expression n p = Some (Inr (lhs, p1)) \<and> \<not> line_break_skipped p1 \<and>
      (current_token_type p1 = plusplus \<or> current_token_type p1 = minusminus) \<longrightarrow>
      parse_postfix_expression (Suc n) p =
        Some (Inr (postfix_expression (current_token_type p1) lhs, snd (get_token p1)))"
    using postfix_applied by blast
  have c: "\<forall>n p.
      current_token_type p = return_t \<and> line_break_skipped (snd (get_token p)) \<longrightarrow>
      parse_statement (Suc n) p =
        Some (Inr (return_statement None, snd (accept semicolon (snd (get_token p)))))"
    using return_suppressed by blast
  from a b c e1 e2 e3 show ?thesis by (intro conjI)
qed

text \<open>The theorem in the two states the example sources reach: after the operand \<open>a\<close>
  of \<open>a LT ++b\<close>, and at the keyword of \<open>return LT 1\<close>.\<close>

theorem line_terminator_suppresses_witness:
  "parse_left_hand_side_expression 4
     \<lparr>lexer = [token identifier_t ''a'', token line_terminator [CHR 0x0A], token plusplus ''++'',
               token identifier_t ''b''], line_break_skipped = False\<rparr>
     = Some (Inr (identifier_expression ''a'',
         \<lparr>lexer = [token plusplus ''++'', token identifier_t ''b''], line_break_skipped = True\<rparr>)) \<and>
   parse_postfix_expression 5
     \<lparr>lexer = [token identifier_t ''a'', token line_terminator [CHR 0x0A], token plusplus ''++'',
               token identifier_t ''b''], line_break_skipped = False\<rparr>
     = Some (Inr (identifier_expression ''a'',
         \<lparr>lexer = [token plusplus ''++'', token identifier_t ''b''], line_break_skipped = True\<rparr>)) \<and>
   parse_postfix_expression 5
     \<lparr>lexer = [token identifier_t ''a'', token plusplus ''++'', token line_terminator [CHR 0x0A],
               token identifier_t ''b''], line_break_skipped = False\<rparr>
     = Some (Inr (postfix_expression plusplus (identifier_expression ''a''),
         \<lparr>lexer = [token identifier_t ''b''], line_break_skipped = True\<rparr>)) \<and>
   parse_statement 1
     \<lparr>lexer = [token return_t ''return'', token line_terminator [CHR 0x0A],
               token numeric_literal ''1''], line_break_skipped = False\<rparr>
     = Some (Inr (return_statement None,
         \<lparr>lexer = [token numeric_literal ''1''], line_break_skipped = True\<rparr>))"
proof -
  let ?p = "\<lparr>lexer = [token identifier_t ''a'', token line_terminator [CHR 0x0A],
                      token plusplus ''++'', token identifier_t ''b''], line_break_skipped = False\<rparr>"
  let ?p1 = "\<lparr>lexer = [token plusplus ''++'', token identifier_t ''b''], line_break_skipped = True\<rparr>"
  let ?q = "\<lparr>lexer = [token identifier_t ''a'', token plusplus ''++'',
                      token line_terminator [CHR 0x0A], token identifier_t ''b''],
             line_break_skipped = False\<rparr>"
  let ?q1 = "\<lparr>lexer = [token plusplus ''++'', token line_terminator [CHR 0x0A],
                       token identifier_t ''b''], line_break_skipped = False\<rparr>"
  let ?r = "\<lparr>lexer = [token return_t ''return'', token line_terminator [CHR 0x0A],
                      token numeric_literal ''1''], line_break_skipped = False\<rparr>"
  have lhs: "parse_left_hand_side_expression 4 ?p = Some (Inr (identifier_expression ''a'', ?p1))"
    by (simp add: parser_eval cong: pbind_weak_cong prod.case_cong_weak)
  have lhs': "parse_left_hand_side_expression 4 ?q = Some (Inr (identifier_expression ''a'', ?q1))"
    by (simp add: parser_eval cong: pbind_weak_cong prod.case_cong_weak)
  note main = line_terminator_suppresses
  have a: "parse_postfix_expression 5 ?p = Some (Inr (identifier_expression ''a'', ?p1))"
    using main [THEN conjunct1, rule_format, of 4 ?p "identifier_expression ''a''" ?p1] lhs
    by simp
  have b: "parse_postfix_expression 5 ?q
      = Some (Inr (postfix_expression plusplus (identifier_expression ''a''),
           \<lparr>lexer = [token identifier_t ''b''], line_break_skipped = True\<rparr>))"
    using main [THEN conjunct2, THEN conjunct1, rule_format,
        of 4 ?q "identifier_expression ''a''" ?q1] lhs'
    by (simp add: current_token_type_def current_token_def get_token_def next_token_def
        skip_whitespace_def Let_def)
  have c: "parse_statement 1 ?r
      = Some (Inr (return_statement None,
           \<lparr>lexer = [token numeric_literal ''1''], line_break_skipped = True\<rparr>))"
    using main [THEN conjunct2, THEN conjunct2, THEN conjunct1, rule_format, of ?r 0]
    by (simp add: current_token_type_def current_token_def get_token_def next_token_def
        skip_whitespace_def Let_def accept_def)
  from lhs a b c show ?thesis by (intro conjI)
qed

section \<open>Equality of values\<close>

text \<open>
  Claim C5, as amended. Values of different kinds are unequal; two undefined and two
  null values are equal; booleans, strings and objects compare by payload (objects by
  the address they point to); numbers are equal when the doubles compare equal or both
  are NaN; comparing two references or two native functions raises the not-implemented
  error.
\<close>

theorem value_eq_cases:
  "(type_of l \<noteq> type_of r \<longrightarrow> value_eq l r = Inr False) \<and>
   value_eq Undefined Undefined = Inr True \<and>
   value_eq Null Null = Inr True \<and>
   value_eq (Boolean a) (Boolean b) = Inr (a = b) \<and>
   value_eq (Number x) (Number y) = Inr (double_eq x y \<or> (isnan x \<and> isnan y)) \<and>
   value_eq (String s) (String t) = Inr (s = t) \<and>
   value_eq (Object p) (Object q) = Inr (p = q) \<and>
   value_eq (Reference u) (Reference v) = Inl Not_Implemented \<and>
   value_eq (Native_function f) (Native_function g) = Inl Not_Implemented"
  by (simp add: value_eq_def Let_def)

text \<open>The theorem at a number and a string, at two NaNs with different payloads, and
  at the two zeros.\<close>

theorem value_eq_cases_witness:
  "value_eq (Number 0x3FF0000000000000) (String ''1'') = Inr False \<and>
   value_eq (Number 0x7FF8000000000000) (Number 0x7FF0000000000001) = Inr True \<and>
   value_eq (Number 0) (Number 0x8000000000000000) = Inr True"
  using value_eq_cases [of "Number 0x3FF0000000000000" "String ''1''" _ _
      "0x7FF8000000000000" "0x7FF0000000000001"]
    value_eq_cases [of "Number 0x3FF0000000000000" "String ''1''" _ _ 0 "0x8000000000000000"]
  by (simp add: double_eq_def isnan_def is_zero_def biased_exponent_def fraction_def)

text \<open>Claim C5 as stated fails for native functions: a native function compared with
  itself does not give true, the comparison throws.\<close>

theorem value_eq_native_function_counterexample:
  "value_eq (Native_function 7) (Native_function 7) = Inl Not_Implemented \<and>
   value_eq (Native_function 7) (Native_function 7) \<noteq> Inr True"
  by (simp add: value_eq_def)

section \<open>The moved-from value\<close>

text \<open>
  Claim C10. After move-assignment the moved-from object holds the kind undefined, also
  when source and destination are the same object; when they differ, the destination
  holds the value the source had, and this value's destructor has not been run. The same
  holds after move-construction of a new object. Destroying the moved-from object then
  runs no destructor and leaves it undefined, and assigning to it destroys nothing.
\<close>

theorem moved_from_is_undefined:
  "type_of (cells (move_assign m this rhs) rhs) = undefined_t \<and>
   (this \<noteq> rhs \<longrightarrow>
      cells (move_assign m this rhs) this = cells m rhs \<and>
      destructed (move_assign m this rhs) =
        destructed m @ (if has_destructor (type_of (cells m this)) then [cells m this] else [])) \<and>
   (this \<noteq> rhs \<longrightarrow>
      type_of (cells (move_construct m this rhs) rhs) = undefined_t \<and>
      cells (move_construct m this rhs) this = cells m rhs \<and>
      destructed (move_construct m this rhs) = destructed m) \<and>
   destroy (move_assign m this rhs) rhs = move_assign m this rhs \<and>
   destructed (copy_assign (move_assign m this rhs) rhs other) =
     destructed (move_assign m this rhs)"
  by (auto simp: move_assign_def move_construct_def destroy_def copy_assign_def Let_def
      has_destructor_def fun_upd_idem)

text \<open>The theorem for a string at address 1 moved to address 0, which holds an object.\<close>

theorem moved_from_is_undefined_witness:
  "cells (move_assign \<lparr>cells = (\<lambda>a. Undefined)(0 := Object 5, 1 := String ''s''), destructed = []\<rparr> 0 1) 1
     = Undefined \<and>
   cells (move_assign \<lparr>cells = (\<lambda>a. Undefined)(0 := Object 5, 1 := String ''s''), destructed = []\<rparr> 0 1) 0
     = String ''s'' \<and>
   destructed (move_assign \<lparr>cells = (\<lambda>a. Undefined)(0 := Object 5, 1 := String ''s''), destructed = []\<rparr> 0 1)
     = [Object 5] \<and>
   cells (move_construct \<lparr>cells = (\<lambda>a. Undefined)(1 := String ''s''), destructed = []\<rparr> 0 1) 0
     = String ''s''"
  using moved_from_is_undefined
      [of "\<lparr>cells = (\<lambda>a. Undefined)(0 := Object 5, 1 := String ''s''), destructed = []\<rparr>" 0 1]
    moved_from_is_undefined
      [of "\<lparr>cells = (\<lambda>a. Undefined)(1 := String ''s''), destructed = []\<rparr>" 0 1]
  by (simp add: has_destructor_def move_assign_def destroy_def Let_def)

section \<open>The fields of a double\<close>

lemma unat_make_double:
  assumes "e < 2048" "f < 2 ^ 52"
  shows "unat (make_double s e f) = (if s then 2 ^ 63 else 0) + e * 2 ^ 52 + f"
proof -
  have "e * 2 ^ 52 + f < 2 ^ 63"
    using assms by simp
  then have "(if s then 2 ^ 63 else 0) + e * 2 ^ 52 + f < (2::nat) ^ 64"
    by simp
  then show ?thesis
    unfolding make_double_def by (intro of_nat_inverse [OF refl]) simp
qed

lemma make_double_fields:
  assumes "e < 2048" "f < 2 ^ 52"
  shows "sign_bit (make_double s e f) = s"
    and "biased_exponent (make_double s e f) = e"
    and "fraction (make_double s e f) = f"
proof -
  note u = unat_make_double [OF assms, of s]
  have lt: "e * 2 ^ 52 + f < 2 ^ 63" using assms by simp
  show "sign_bit (make_double s e f) = s"
    using lt by (simp add: sign_bit_def u)
  have d: "(e * 2 ^ 52 + f) div 2 ^ 52 = e" using assms by simp
  have "((if s then 2 ^ 63 else 0) + e * 2 ^ 52 + f) div 2 ^ 52 = (if s then 2 ^ 11 else 0) + e"
    using assms by (simp add: div_add1_eq)
  then show "biased_exponent (make_double s e f) = e"
    using assms by (simp add: biased_exponent_def u)
  have "((if s then 2 ^ 63 else 0) + e * 2 ^ 52 + f) mod 2 ^ 52 = f"
    using assms by (simp add: mod_add_eq [symmetric] )
  then show "fraction (make_double s e f) = f"
    by (simp add: fraction_def u)
qed

lemma fraction_bound: "fraction d < 2 ^ 52"
  by (simp add: fraction_def)

lemma biased_exponent_bound: "biased_exponent d < 2048"
  by (simp add: biased_exponent_def)

section \<open>Digits and logarithms\<close>

lemma digits_bounds:
  assumes "2 \<le> b" "0 < n"
  shows "b ^ (digits b n - 1) \<le> n \<and> n < b ^ digits b n"
  using assms
proof (induction n rule: less_induct)
  case (less n)
  have d: "digits b n = Suc (digits b (n div b))"
    using less.prems by (subst digits.simps) simp
  show ?case
  proof (cases "n div b = 0")
    case True
    then have "n < b" using less.prems
      by (metis div_greater_zero_iff not_less zero_less_iff_neq_zero le_eq_less_or_eq less_le_trans pos2)
    moreover have "digits b (n div b) = 0" using True by (subst digits.simps) simp
    ultimately show ?thesis using less.prems d by simp
  next
    case False
    then have pos: "0 < n div b" by simp
    have "n div b < n" using less.prems pos by (simp add: div_less_dividend)
    from less.IH [OF this less.prems(1) pos]
    have ih: "b ^ (digits b (n div b) - 1) \<le> n div b" "n div b < b ^ digits b (n div b)"
      by simp_all
    have dpos: "0 < digits b (n div b)"
      using pos less.prems by (subst digits.simps) simp
    have "b ^ (digits b n - 1) = b * b ^ (digits b (n div b) - 1)"
      using d dpos by (cases "digits b (n div b)") simp_all
    also have "\<dots> \<le> b * (n div b)" using ih(1) by simp
    also have "\<dots> \<le> n" by simp
    finally have lo: "b ^ (digits b n - 1) \<le> n" .
    have "n div b + 1 \<le> b ^ digits b (n div b)" using ih(2) by simp
    then have "b * (n div b + 1) \<le> b * b ^ digits b (n div b)" by (rule mult_le_mono2)
    moreover have "n < b * (n div b + 1)"
      using less.prems(1) by (metis Suc_eq_plus1 dividend_less_times_div mult.commute mult_Suc_right add.commute less_le_trans pos2)
    ultimately have "n < b ^ digits b n" using d by simp
    with lo show ?thesis by simp
  qed
qed

lemma digits_pos: "2 \<le> b \<Longrightarrow> 0 < n \<Longrightarrow> 0 < digits b n"
  by (subst digits.simps) simp

lemma ilog_bounds:
  assumes b: "2 \<le> b" and q: "0 < q"
  shows "of_nat b powi (ilog b q) \<le> q" and "q < of_nat b powi (ilog b q + 1)"
proof -
  have b0: "(0::real) < of_nat b" using b by simp
  show "of_nat b powi (ilog b q) \<le> q" "q < of_nat b powi (ilog b q + 1)"
  proof (atomize (full), cases "1 \<le> q")
    case True
    define n where "n = nat \<lfloor>q\<rfloor>"
    define d where "d = digits b n"
    have n: "0 < n" using True by (simp add: n_def)
    have fl0: "0 \<le> \<lfloor>q\<rfloor>" using True by simp
    have rn: "real n = of_int \<lfloor>q\<rfloor>" using fl0 by (simp add: n_def)
    have nq: "real n \<le> q" "q < real n + 1"
      unfolding rn by linarith+
    from digits_bounds [OF b n] have db: "b ^ (d - 1) \<le> n" "n < b ^ d" by (simp_all add: d_def)
    have dpos: "0 < d" using digits_pos [OF b n] by (simp add: d_def)
    have il: "ilog b q = int d - 1" using True by (simp add: ilog_def n_def d_def)
    have e1: "int d - 1 = int (d - 1)" using dpos by simp
    have "of_nat b powi (ilog b q) = (of_nat b :: real) ^ (d - 1)"
      unfolding il e1 by (rule power_int_of_nat)
    also have "\<dots> = real (b ^ (d - 1))" by simp
    also have "\<dots> \<le> real n" using db(1) by (simp only: of_nat_le_iff)
    finally have lo: "of_nat b powi (ilog b q) \<le> q" using nq(1) by simp
    have "real n + 1 \<le> real (b ^ d)" using db(2)
      by (metis Suc_leI of_nat_Suc of_nat_le_iff add.commute)
    also have "\<dots> = of_nat b powi (int d)" by (simp add: power_int_of_nat)
    finally have "q < of_nat b powi (ilog b q + 1)" using nq(2) by (simp add: il)
    with lo show "of_nat b powi (ilog b q) \<le> q \<and> q < of_nat b powi (ilog b q + 1)" by simp
  next
    case False
    define x where "x = 1 / q"
    define n where "n = nat (\<lceil>x\<rceil> - 1)"
    define d where "d = digits b n"
    have x1: "1 < x" using False q by (simp add: x_def)
    then have c2: "2 \<le> \<lceil>x\<rceil>" by linarith
    then have n: "0 < n" by (simp add: n_def)
    have rn: "real n = of_int \<lceil>x\<rceil> - 1" using c2 by (simp add: n_def)
    have nx: "real n < x" "x \<le> real n + 1"
      unfolding rn by linarith+
    from digits_bounds [OF b n] have db: "b ^ (d - 1) \<le> n" "n < b ^ d" by (simp_all add: d_def)
    have dpos: "0 < d" using digits_pos [OF b n] by (simp add: d_def)
    have il: "ilog b q = - int d" using False by (simp add: ilog_def n_def d_def x_def)
    have pw': "(of_nat b :: real) ^ d = real (b ^ d)" by simp
    have "real n + 1 \<le> real (b ^ d)" using db(2)
      by (metis Suc_leI of_nat_Suc of_nat_le_iff add.commute)
    with nx(2) have xle: "x \<le> of_nat b ^ d" unfolding pw' by linarith
    have bd0: "(0::real) < of_nat b ^ d" using b0 by simp
    have "of_nat b powi (ilog b q) = 1 / (of_nat b :: real) ^ d"
      unfolding il by (simp add: power_int_minus power_int_of_nat field_simps)
    also have "\<dots> \<le> q"
      using xle q bd0 by (simp add: x_def field_simps)
    finally have lo: "of_nat b powi (ilog b q) \<le> q" .
    have pw: "(of_nat b :: real) ^ (d - 1) = real (b ^ (d - 1))" by simp
    have "real (b ^ (d - 1)) \<le> real n" using db(1) by (simp only: of_nat_le_iff)
    with nx(1) have lt: "(of_nat b :: real) ^ (d - 1) < x" unfolding pw by linarith
    have e1: "- int d + 1 = - int (d - 1)" using dpos by simp
    have bd1: "(0::real) < of_nat b ^ (d - 1)" using b0 by simp
    have "of_nat b powi (ilog b q + 1) = 1 / (of_nat b :: real) ^ (d - 1)"
      unfolding il e1 by (simp add: power_int_minus power_int_of_nat field_simps)
    moreover have "q < 1 / (of_nat b :: real) ^ (d - 1)"
      using lt q bd1 by (simp add: x_def field_simps)
    ultimately have "q < of_nat b powi (ilog b q + 1)" by simp
    with lo show "of_nat b powi (ilog b q) \<le> q \<and> q < of_nat b powi (ilog b q + 1)" by simp
  qed
qed

lemma round_half_even_of_int: "round_half_even (of_int k) = k"
  by (simp add: round_half_even_def)

section \<open>Powers of two\<close>

lemma pow2_pos: "(0::real) < 2 powi a"
  by (simp add: power_int_def)

lemma pow2_less_iff: "(2::real) powi a < 2 powi b \<longleftrightarrow> a < b"
proof
  assume l: "(2::real) powi a < 2 powi b"
  show "a < b"
  proof (rule ccontr)
    assume "\<not> a < b"
    then have "b \<le> a" by simp
    then have "(2::real) powi b \<le> 2 powi a" by (intro power_int_increasing) simp_all
    with l show False by simp
  qed
next
  assume "a < b"
  then show "(2::real) powi a < 2 powi b" by (intro power_int_strict_increasing) simp_all
qed

lemma pow2_le_iff: "(2::real) powi a \<le> 2 powi b \<longleftrightarrow> a \<le> b"
  using pow2_less_iff [of b a] by (auto simp: not_less [symmetric])

lemma pow2_add: "(2::real) powi (a + b) = 2 powi a * 2 powi b"
  by (rule power_int_add) simp

lemma pow2_diff: "(2::real) powi (a - b) = 2 powi a / 2 powi b"
  by (rule power_int_diff) simp

lemma pow2_nat: "(2::real) powi (int n) = 2 ^ n"
  by (rule power_int_of_nat)

lemma pow2_nonneg: "0 \<le> a \<Longrightarrow> (2::real) powi a = 2 ^ nat a"
  by (simp add: power_int_def)

section \<open>Rounding is exact on representable numbers\<close>

lemma magnitude_make_double_subnormal:
  "f < 2 ^ 52 \<Longrightarrow> magnitude (make_double s 0 f) = of_nat f * 2 powi (- 1074)"
  by (simp add: magnitude_def make_double_fields)

lemma magnitude_make_double_normal:
  "0 < e \<Longrightarrow> e < 2048 \<Longrightarrow> f < 2 ^ 52 \<Longrightarrow>
   magnitude (make_double s e f) = of_nat (2 ^ 52 + f) * 2 powi (int e - 1075)"
  by (simp add: magnitude_def make_double_fields)

lemma round_to_double_zero:
  "sign_bit (round_to_double s 0) = s" "is_finite (round_to_double s 0)"
  "magnitude (round_to_double s 0) = 0" "is_zero (round_to_double s 0)"
  by (simp_all add: round_to_double_def make_double_fields is_finite_def
      magnitude_make_double_subnormal is_zero_def)

lemma round_to_double_exact_pos:
  assumes q: "q = of_nat M * 2 powi E" and M: "M < 2 ^ 53" and E: "- 1074 \<le> E"
    and lt: "q < 2 powi 1024" and pos: "0 < q"
  shows "sign_bit (round_to_double s q) = s \<and> is_finite (round_to_double s q) \<and>
         magnitude (round_to_double s q) = q \<and> \<not> is_zero (round_to_double s q)"
proof -
  define L where "L = ilog 2 q"
  define e where "e = max (L - 52) (- 1074)"
  have Lb: "2 powi L \<le> q" "q < 2 powi (L + 1)"
    using ilog_bounds [of 2 q] pos by (simp_all add: L_def)
  have "q < 2 ^ 53 * 2 powi E"
  proof -
    have "real M < 2 ^ 53" using M by (metis of_nat_less_iff of_nat_numeral of_nat_power)
    then show ?thesis unfolding q using pow2_pos [of E] by simp
  qed
  also have "\<dots> = 2 powi (53 + E)" by (simp add: pow2_add)
  finally have "2 powi L < (2::real) powi (53 + E)" using Lb(1) by simp
  then have LE: "L - 52 \<le> E" by (simp add: pow2_less_iff)
  then have eE: "e \<le> E" using E by (simp add: e_def)
  define K where "K = M * 2 ^ nat (E - e)"
  have scaled: "q * 2 powi (- e) = of_nat K"
  proof -
    have "q * 2 powi (- e) = of_nat M * (2 powi E * 2 powi (- e))" by (simp add: q)
    also have "2 powi E * 2 powi (- e) = (2::real) powi (E - e)"
      using pow2_add [of E "- e"] by simp
    also have "\<dots> = 2 ^ nat (E - e)" using eE by (simp add: pow2_nonneg)
    finally show ?thesis by (simp add: K_def)
  qed
  have restore: "of_nat K * 2 powi e = q"
  proof -
    have "of_nat K * 2 powi e = q * (2 powi (- e) * 2 powi e)" by (simp add: scaled [symmetric])
    also have "2 powi (- e) * 2 powi e = (2::real) powi 0"
      using pow2_add [of "- e" e] by simp
    finally show ?thesis by simp
  qed
  have "real K < 2 powi (L + 1) * 2 powi (- e)"
    unfolding scaled [symmetric] using Lb(2) pow2_pos [of "- e"] by simp
  also have "\<dots> = 2 powi (L + 1 - e)" using pow2_add [of "L + 1" "- e"] by simp
  also have "\<dots> \<le> 2 powi 53"
  proof -
    have "L + 1 - e \<le> 53" by (simp add: e_def)
    then show ?thesis by (rule pow2_le_iff [THEN iffD2])
  qed
  also have "(2::real) powi 53 = 2 ^ 53" by simp
  finally have "real K < 2 ^ 53" .
  then have K53: "K < 2 ^ 53"
    by (metis of_nat_less_iff of_nat_numeral of_nat_power)
  have Kpos: "0 < K"
  proof (rule ccontr)
    assume "\<not> 0 < K"
    then have "K = 0" by simp
    with restore pos show False by simp
  qed
  have rhe: "nat (round_half_even (q * 2 powi (- e))) = K"
    unfolding scaled using round_half_even_of_int [of "int K"] by simp
  have e971: "e \<le> 971"
  proof -
    have "2 powi L < (2::real) powi 1024" using Lb(1) lt by simp
    then have "L < 1024" by (simp only: pow2_less_iff)
    then show ?thesis by (simp add: e_def)
  qed
  have e1074: "- 1074 \<le> e" by (simp add: e_def)
  have r: "round_to_double s q =
      (if K < 2 ^ 52 then make_double s 0 K
       else make_double s (nat (e + 1075)) (K - 2 ^ 52))"
    using pos K53 e971
    by (simp add: round_to_double_def Let_def L_def [symmetric] e_def [symmetric] rhe)
  show ?thesis
  proof (cases "K < 2 ^ 52")
    case True
    have em: "e = - 1074"
    proof (rule ccontr)
      assume "e \<noteq> - 1074"
      then have "e = L - 52" by (simp add: e_def max_def split: if_splits)
      then have "L + - e = 52" by simp
      then have "(2::real) powi 52 = 2 powi L * 2 powi (- e)"
        using pow2_add [of L "- e"] by (simp only:)
      also have "\<dots> \<le> q * 2 powi (- e)" using Lb(1) pow2_pos [of "- e"] by simp
      also have "\<dots> = real K" by (rule scaled)
      finally have "(2::real) powi 52 \<le> real K" .
      moreover have "(2::real) powi 52 = 2 ^ 52" by simp
      ultimately have "(2::real) ^ 52 \<le> real K" by (simp only:)
      then have "2 ^ 52 \<le> K" by (metis of_nat_le_iff of_nat_numeral of_nat_power)
      with True show False by simp
    qed
    have z: "\<not> is_zero (make_double s 0 K)"
      using True Kpos by (simp add: is_zero_def make_double_fields)
    show ?thesis
      using True restore z
      by (simp add: r make_double_fields is_finite_def magnitude_make_double_subnormal em)
  next
    case False
    then have f: "K - 2 ^ 52 < 2 ^ 52" using K53 by simp
    have be: "0 < nat (e + 1075)" "nat (e + 1075) < 2048"
      using e971 e1074 by simp_all
    have ie: "int (nat (e + 1075)) - 1075 = e" using e1074 by simp
    have kk: "2 ^ 52 + (K - 2 ^ 52) = K" using False by simp
    have z: "\<not> is_zero (make_double s (nat (e + 1075)) (K - 2 ^ 52))"
      using be f by (simp add: is_zero_def make_double_fields)
    have fin: "is_finite (make_double s (nat (e + 1075)) (K - 2 ^ 52))"
      using be f e971 by (simp add: is_finite_def make_double_fields)
    show ?thesis
      using False restore z fin f be
      by (simp add: r make_double_fields magnitude_make_double_normal ie kk)
  qed
qed

lemma round_to_double_exact:
  assumes "representable q"
  shows "sign_bit (round_to_double s q) = s" and "is_finite (round_to_double s q)"
    and "magnitude (round_to_double s q) = q"
    and "is_zero (round_to_double s q) \<longleftrightarrow> q = 0"
proof -
  from assms obtain M :: nat and E :: int
    where q: "q = of_nat M * 2 powi E" and M: "M < 2 ^ 53" and E: "- 1074 \<le> E"
      and lt: "q < 2 powi 1024"
    by (auto simp: representable_def)
  have nonneg: "0 \<le> q" unfolding q using pow2_pos [of E] by simp
  have all: "sign_bit (round_to_double s q) = s \<and> is_finite (round_to_double s q) \<and>
         magnitude (round_to_double s q) = q \<and> (is_zero (round_to_double s q) \<longleftrightarrow> q = 0)"
  proof (cases "q = 0")
    case True
    then show ?thesis using round_to_double_zero [of s] by simp
  next
    case False
    with nonneg have "0 < q" by simp
    from round_to_double_exact_pos [OF q M E lt this, of s] False show ?thesis by simp
  qed
  then show "sign_bit (round_to_double s q) = s" and "is_finite (round_to_double s q)"
    and "magnitude (round_to_double s q) = q"
    and "is_zero (round_to_double s q) \<longleftrightarrow> q = 0"
    by simp_all
qed

section \<open>Representable numbers\<close>

lemma representableI:
  "q = of_nat M * 2 powi E \<Longrightarrow> M < 2 ^ 53 \<Longrightarrow> - 1074 \<le> E \<Longrightarrow> q < 2 powi 1024 \<Longrightarrow> representable q"
  unfolding representable_def by blast

lemma representable_nonneg: "representable q \<Longrightarrow> 0 \<le> q"
  using pow2_pos by (auto simp: representable_def)

lemma representable_less: "representable q \<Longrightarrow> q < 2 powi 1024"
  by (simp add: representable_def)

lemma real_less_pow2: "M < 2 ^ k \<Longrightarrow> real M < 2 ^ k"
  by (metis of_nat_less_iff of_nat_numeral of_nat_power)

lemma pow2_mult_nat: "(2::real) ^ k * 2 powi E = 2 powi (int k + E)"
  by (simp only: pow2_add pow2_nat)

lemma scaled_less:
  assumes "real M < 2 ^ k" and "int k + E \<le> B"
  shows "real M * 2 powi E < 2 powi B"
proof -
  have "real M * 2 powi E < 2 ^ k * 2 powi E"
    using assms(1) pow2_pos [of E] by (simp only: mult_strict_right_mono)
  also have "\<dots> = 2 powi (int k + E)" by (rule pow2_mult_nat)
  also have "\<dots> \<le> 2 powi B" using assms(2) by (rule pow2_le_iff [THEN iffD2])
  finally show ?thesis .
qed

lemma magnitude_subnormal:
  "biased_exponent d = 0 \<Longrightarrow> magnitude d = real (fraction d) * 2 powi (- 1074)"
  unfolding magnitude_def by (rule if_P)

lemma magnitude_normal:
  "biased_exponent d \<noteq> 0 \<Longrightarrow>
   magnitude d = real (2 ^ 52 + fraction d) * 2 powi (int (biased_exponent d) - 1075)"
  unfolding magnitude_def by (rule if_not_P)

lemma representable_magnitude:
  assumes "is_finite d"
  shows "representable (magnitude d)"
proof (cases "biased_exponent d = 0")
  case True
  have f: "real (fraction d) < 2 ^ 52" by (rule real_less_pow2) (rule fraction_bound)
  have "real (fraction d) * 2 powi (- 1074) < 2 powi 1024"
    by (rule scaled_less [OF f]) simp
  then have "magnitude d < 2 powi 1024" by (simp only: magnitude_subnormal [OF True])
  moreover have "fraction d < 2 ^ 53" using fraction_bound [of d] by simp
  moreover have "magnitude d = real (fraction d) * 2 powi (- 1074)"
    by (rule magnitude_subnormal [OF True])
  ultimately show ?thesis
    by (intro representableI [of _ "fraction d" "- 1074"]) simp_all
next
  case False
  define e where "e = biased_exponent d"
  have e: "0 < e" "e < 2047" using False assms by (simp_all add: e_def is_finite_def)
  have M: "2 ^ 52 + fraction d < 2 ^ 53" using fraction_bound [of d] by simp
  have m: "magnitude d = real (2 ^ 52 + fraction d) * 2 powi (int e - 1075)"
    unfolding e_def by (rule magnitude_normal [OF False])
  have "real (2 ^ 52 + fraction d) * 2 powi (int e - 1075) < 2 powi 1024"
    using e by (intro scaled_less [OF real_less_pow2 [OF M]]) simp
  then have "magnitude d < 2 powi 1024" by (simp only: m)
  then show ?thesis
    using M e m
    by (intro representableI [of _ "2 ^ 52 + fraction d" "int e - 1075"]) simp_all
qed

lemma representable_int:
  assumes "0 \<le> k" "k \<le> 2 ^ 53"
  shows "representable (of_int k)"
proof (cases "k = 2 ^ 53")
  case True
  have "(2::real) ^ 53 < 2 powi 1024" by simp
  then show ?thesis
    unfolding True by (intro representableI [of _ "2 ^ 52" 1]) simp_all
next
  case False
  with assms have k: "k < 2 ^ 53" by simp
  have n: "nat k < 2 ^ 53" using assms k by (simp add: nat_less_iff)
  have "real_of_int k < 2 ^ 53" using k by (metis of_int_less_iff of_int_numeral of_int_power)
  also have "\<dots> < 2 powi 1024" by simp
  finally show ?thesis
    using assms n by (intro representableI [of _ "nat k" 0]) simp_all
qed

lemma representable_zero: "representable 0"
  using representable_int [of 0] by simp

text \<open>A representable number with a nonnegative exponent is a natural number.\<close>

lemma representable_cases:
  assumes "representable q"
  obtains (integer) n :: nat where "q = real n"
  | (small) "q < 2 ^ 53"
proof -
  from assms obtain M :: nat and E :: int
    where q: "q = of_nat M * 2 powi E" and M: "M < 2 ^ 53" and E: "- 1074 \<le> E"
    by (auto simp: representable_def)
  show ?thesis
  proof (cases "0 \<le> E")
    case True
    then have "q = real (M * 2 ^ nat E)" by (simp add: q pow2_nonneg)
    then show ?thesis by (rule integer)
  next
    case False
    have "real M * 2 powi E < 2 powi 53"
      using False by (intro scaled_less [OF real_less_pow2 [OF M]]) simp
    then have "q < 2 ^ 53" by (simp add: q)
    then show ?thesis by (rule small)
  qed
qed

lemma representable_floor:
  assumes "representable q"
  shows "representable (of_int \<lfloor>q\<rfloor>)"
  using assms
proof (cases q rule: representable_cases)
  case (integer n)
  then show ?thesis using assms by simp
next
  case small
  have "0 \<le> \<lfloor>q\<rfloor>" using representable_nonneg [OF assms] by simp
  moreover have "\<lfloor>q\<rfloor> \<le> 2 ^ 53"
  proof -
    have "of_int \<lfloor>q\<rfloor> \<le> q" by simp
    with small have "real_of_int \<lfloor>q\<rfloor> < 2 ^ 53" by linarith
    then have "\<lfloor>q\<rfloor> < 2 ^ 53" by (metis of_int_less_iff of_int_numeral of_int_power)
    then show ?thesis by simp
  qed
  ultimately show ?thesis by (rule representable_int)
qed

lemma representable_ceiling:
  assumes "representable q"
  shows "representable (of_int \<lceil>q\<rceil>)"
  using assms
proof (cases q rule: representable_cases)
  case (integer n)
  then show ?thesis using assms by simp
next
  case small
  have "0 \<le> \<lceil>q\<rceil>" using representable_nonneg [OF assms] by (simp add: ceiling_le_iff le_ceiling_iff)
  moreover have "\<lceil>q\<rceil> \<le> 2 ^ 53"
  proof -
    have "q \<le> real_of_int (2 ^ 53)" using small by simp
    then show ?thesis by (simp only: ceiling_le_iff)
  qed
  ultimately show ?thesis by (rule representable_int)
qed

lemma representable_div_2_32:
  assumes "representable q" and "q = 0 \<or> 1 \<le> q"
  shows "representable (q / 2 ^ 32)"
proof (cases "q = 0")
  case True
  then show ?thesis by (simp add: representable_zero)
next
  case False
  with assms have q1: "1 \<le> q" by simp
  from assms obtain M :: nat and E :: int
    where q: "q = of_nat M * 2 powi E" and M: "M < 2 ^ 53" and E: "- 1074 \<le> E"
      and lt: "q < 2 powi 1024"
    by (auto simp: representable_def)
  have E52: "- 53 < E"
  proof (rule ccontr)
    assume "\<not> - 53 < E"
    then have "int 53 + E \<le> 0" by simp
    from scaled_less [OF real_less_pow2 [OF M] this] have "q < 1" by (simp add: q)
    with q1 show False by simp
  qed
  have "q / 2 ^ 32 = real M * (2 powi E / 2 powi 32)" by (simp add: q)
  also have "2 powi E / 2 powi 32 = (2::real) powi (E - 32)" by (simp only: pow2_diff)
  finally have eq: "q / 2 ^ 32 = real M * 2 powi (E - 32)" .
  have "q / 2 ^ 32 \<le> q" using q1 by (simp add: field_simps)
  with lt have "q / 2 ^ 32 < 2 powi 1024" by simp
  with eq M E52 show ?thesis
    by (intro representableI [of _ M "E - 32"]) simp_all
qed

lemma representable_mult_2_32:
  assumes "representable q" and "2 ^ 32 * q < 2 powi 1024"
  shows "representable (2 ^ 32 * q)"
proof -
  from assms obtain M :: nat and E :: int
    where q: "q = of_nat M * 2 powi E" and M: "M < 2 ^ 53" and E: "- 1074 \<le> E"
    by (auto simp: representable_def)
  have "2 ^ 32 * q = real M * (2 powi 32 * 2 powi E)" by (simp add: q)
  also have "2 powi 32 * 2 powi E = (2::real) powi (32 + E)" by (simp only: pow2_add)
  finally have eq: "2 ^ 32 * q = real M * 2 powi (32 + E)" .
  with assms(2) M E show ?thesis
    by (intro representableI [of _ M "32 + E"]) simp_all
qed

section \<open>Finite doubles\<close>

lemma finite_not_special: "is_finite d \<Longrightarrow> \<not> isnan d \<and> \<not> isinf d"
  by (simp add: is_finite_def isnan_def isinf_def)

lemma not_finite_iff: "\<not> is_finite d \<longleftrightarrow> isnan d \<or> isinf d"
  using biased_exponent_bound [of d] by (auto simp: is_finite_def isnan_def isinf_def)

lemma magnitude_nonneg: "0 \<le> magnitude d"
  using pow2_pos by (simp add: magnitude_def)

lemma magnitude_zero_iff: "magnitude d = 0 \<longleftrightarrow> is_zero d"
proof (cases "biased_exponent d = 0")
  case True
  then show ?thesis
    using pow2_pos [of "- 1074"] by (simp add: magnitude_subnormal is_zero_def)
next
  case False
  have "0 < real (2 ^ 52 + fraction d) * 2 powi (int (biased_exponent d) - 1075)"
    using pow2_pos [of "int (biased_exponent d) - 1075"] by (intro mult_pos_pos) simp_all
  then show ?thesis
    using False by (simp add: magnitude_normal is_zero_def)
qed

lemma valof_sign: "valof d = (if sign_bit d then - magnitude d else magnitude d)"
  by (rule valof_def)

text \<open>Sign, finiteness, magnitude and being zero depend on the three fields only.\<close>

lemma make_double_same_fields:
  "is_finite (make_double s (biased_exponent d) (fraction d)) = is_finite d"
  "magnitude (make_double s (biased_exponent d) (fraction d)) = magnitude d"
  "is_zero (make_double s (biased_exponent d) (fraction d)) = is_zero d"
  "sign_bit (make_double s (biased_exponent d) (fraction d)) = s"
  by (simp_all only: is_finite_def magnitude_def is_zero_def
      make_double_fields [OF biased_exponent_bound fraction_bound])

lemma double_constants:
  "sign_bit double_zero = False" "is_finite double_zero" "magnitude double_zero = 0"
  "sign_bit double_one = False" "is_finite double_one" "magnitude double_one = 1"
  "sign_bit double_minus_one = True" "is_finite double_minus_one" "magnitude double_minus_one = 1"
  "sign_bit double_2_32 = False" "is_finite double_2_32" "magnitude double_2_32 = 2 ^ 32"
  by (simp_all add: double_zero_def double_one_def double_minus_one_def double_2_32_def
      is_finite_def make_double_fields magnitude_make_double_subnormal
      magnitude_make_double_normal)

lemma double_less_finite:
  "is_finite a \<Longrightarrow> is_finite b \<Longrightarrow> double_less a b = (valof a < valof b)"
  by (simp add: double_less_def finite_not_special)

lemma double_mul_finite:
  "is_finite a \<Longrightarrow> is_finite b \<Longrightarrow>
   double_mul a b = round_to_double (sign_bit a \<noteq> sign_bit b) (magnitude a * magnitude b)"
  by (simp add: double_mul_def finite_not_special)

lemma double_div_finite:
  "is_finite a \<Longrightarrow> is_finite b \<Longrightarrow> \<not> is_zero b \<Longrightarrow>
   double_div a b = round_to_double (sign_bit a \<noteq> sign_bit b) (magnitude a / magnitude b)"
  by (simp add: double_div_def finite_not_special)

lemma double_sub_finite:
  "is_finite a \<Longrightarrow> is_finite b \<Longrightarrow>
   double_sub a b =
     (if valof a - valof b = 0 then make_double (sign_bit a \<and> \<not> sign_bit b) 0 0
      else round_to_double (valof a - valof b < 0) \<bar>valof a - valof b\<bar>)"
  by (simp add: double_sub_def finite_not_special Let_def)

lemma double_floor_finite:
  "is_finite a \<Longrightarrow> \<not> is_zero a \<Longrightarrow>
   double_floor a = round_to_double (sign_bit a) \<bar>of_int \<lfloor>valof a\<rfloor>\<bar>"
  by (simp add: double_floor_def)

lemma double_eq_zero: "\<not> isnan d \<Longrightarrow> double_eq d double_zero = is_zero d"
proof -
  have z: "is_zero double_zero" "\<not> isnan double_zero"
    by (simp_all add: double_zero_def is_zero_def isnan_def make_double_fields)
  assume "\<not> isnan d"
  then show ?thesis using z by (auto simp: double_eq_def)
qed

section \<open>Conversion to unsigned 32-bit integers\<close>

lemma to_uint32_finite:
  assumes fin: "is_finite n" and nz: "\<not> is_zero n"
  shows "to_uint32 n =
     Inr (word_of_int ((if sign_bit n then - \<lfloor>magnitude n\<rfloor> else \<lfloor>magnitude n\<rfloor>) mod 2 ^ 32))"
proof -
  define neg where "neg = sign_bit n"
  define K where "K = \<lfloor>magnitude n\<rfloor>"
  define i where "i = (if neg then - K else K)"
  have rep_a: "representable (magnitude n)" by (rule representable_magnitude [OF fin])
  have a_pos: "0 < magnitude n"
    using magnitude_nonneg [of n] magnitude_zero_iff [of n] nz by (simp add: less_le)
  have K0: "0 \<le> K" using a_pos by (simp add: K_def)
  have repK: "representable (of_int K)" unfolding K_def by (rule representable_floor [OF rep_a])
  have absK: "\<bar>real_of_int K\<bar> = of_int K" using K0 by simp
  \<comment> \<open>\<^verbatim>\<open>std::abs(n)\<close>\<close>
  define A where "A = double_abs n"
  have A: "sign_bit A = False" "is_finite A" "magnitude A = magnitude n" "\<not> is_zero A"
    using fin nz by (simp_all add: A_def double_abs_def make_double_same_fields)
  have valA: "valof A = magnitude n" using A by (simp add: valof_def)
  \<comment> \<open>\<^verbatim>\<open>std::floor(std::abs(n))\<close>\<close>
  define F1 where "F1 = double_floor A"
  have F1eq: "F1 = round_to_double False (of_int K)"
    unfolding F1_def double_floor_finite [OF A(2) A(4)] valA A(1) K_def [symmetric] absK ..
  have F1: "sign_bit F1 = False" "is_finite F1" "magnitude F1 = of_int K"
    unfolding F1eq by (rule round_to_double_exact [OF repK])+
  \<comment> \<open>\<^verbatim>\<open>(n < 0 ? -1 : 1)\<close>\<close>
  define c where "c = (if double_less n double_zero then double_minus_one else double_one)"
  have dl: "double_less n double_zero = neg"
    using a_pos
    by (simp add: double_less_finite [OF fin double_constants(2)] valof_def double_constants neg_def)
  have c: "sign_bit c = neg" "is_finite c" "magnitude c = 1"
    by (simp_all add: c_def dl double_constants)
  \<comment> \<open>\<^verbatim>\<open>to_integer_inner(n)\<close>\<close>
  define n1 where "n1 = double_mul c F1"
  have n1eq: "n1 = round_to_double neg (of_int K)"
    unfolding n1_def double_mul_finite [OF c(2) F1(2)] c F1 by simp
  have n1: "sign_bit n1 = neg" "is_finite n1" "magnitude n1 = of_int K" "is_zero n1 \<longleftrightarrow> K = 0"
    unfolding n1eq using round_to_double_exact [OF repK, of neg] by simp_all
  have valn1: "valof n1 = of_int i" using n1 by (simp add: valof_def i_def)
  \<comment> \<open>\<^verbatim>\<open>n / max\<close>\<close>
  define D1 where "D1 = double_div n1 double_2_32"
  have max_nz: "\<not> is_zero double_2_32"
    using magnitude_zero_iff [of double_2_32] by (simp add: double_constants)
  have D1eq: "D1 = round_to_double neg (of_int K / 2 ^ 32)"
    unfolding D1_def double_div_finite [OF n1(2) double_constants(11) max_nz] n1 double_constants
    by simp
  have K01: "real_of_int K = 0 \<or> 1 \<le> real_of_int K"
  proof (cases "K = 0")
    case True
    then show ?thesis by simp
  next
    case False
    with K0 have "1 \<le> K" by simp
    then have "1 \<le> real_of_int K" by (simp only: of_int_1_le_iff)
    then show ?thesis by simp
  qed
  have repD: "representable (of_int K / 2 ^ 32)"
    by (rule representable_div_2_32 [OF repK K01])
  have D1: "sign_bit D1 = neg" "is_finite D1" "magnitude D1 = of_int K / 2 ^ 32"
      "is_zero D1 \<longleftrightarrow> K = 0"
    unfolding D1eq using round_to_double_exact [OF repD, of neg] by simp_all
  have valD1: "valof D1 = of_int i / 2 ^ 32" using D1 by (simp add: valof_def i_def)
  \<comment> \<open>\<^verbatim>\<open>std::floor(n / max)\<close>\<close>
  define J where "J = i div 2 ^ 32"
  have floorD: "\<lfloor>valof D1\<rfloor> = J"
  proof -
    have "\<lfloor>real_of_int i / real_of_int (2 ^ 32)\<rfloor> = i div 2 ^ 32"
      by (rule floor_divide_of_int_eq)
    then show ?thesis by (simp add: valD1 J_def)
  qed
  have Jsign: "(neg \<longrightarrow> J \<le> 0) \<and> (\<not> neg \<longrightarrow> 0 \<le> J)"
  proof (cases neg)
    case True
    then have "i \<le> 0" using K0 by (simp add: i_def)
    then have "i div 2 ^ 32 \<le> 0" by (rule div_nonpos_pos_le0) simp
    then show ?thesis using True by (simp add: J_def)
  next
    case False
    then have "0 \<le> i" using K0 by (simp add: i_def)
    then have "0 \<le> i div 2 ^ 32" by (simp add: pos_imp_zdiv_nonneg_iff)
    then show ?thesis using False by (simp add: J_def)
  qed
  have absJi: "\<bar>J\<bar> = (if neg then \<lceil>real_of_int K / 2 ^ 32\<rceil>
                       else \<lfloor>real_of_int K / 2 ^ 32\<rfloor>)"
  proof (cases neg)
    case True
    have "J = \<lfloor>- (real_of_int K / 2 ^ 32)\<rfloor>"
      using floorD True by (simp add: valD1 i_def)
    also have "\<dots> = - \<lceil>real_of_int K / 2 ^ 32\<rceil>" by (simp add: ceiling_def)
    finally have "J = - \<lceil>real_of_int K / 2 ^ 32\<rceil>" .
    moreover have "0 \<le> \<lceil>real_of_int K / 2 ^ 32\<rceil>" using K0 by (simp add: le_ceiling_iff) 
    ultimately show ?thesis using True by simp
  next
    case False
    have "J = \<lfloor>real_of_int K / 2 ^ 32\<rfloor>"
      using floorD False by (simp add: valD1 i_def)
    moreover have "0 \<le> \<lfloor>real_of_int K / 2 ^ 32\<rfloor>" using K0 by simp
    ultimately show ?thesis using False by simp
  qed
  have absJ: "real_of_int \<bar>J\<bar> = (if neg then of_int \<lceil>real_of_int K / 2 ^ 32\<rceil>
                                  else of_int \<lfloor>real_of_int K / 2 ^ 32\<rfloor>)"
    unfolding absJi by (cases neg) simp_all
  have repJ: "representable (of_int \<bar>J\<bar>)"
    unfolding absJ using representable_floor [OF repD] representable_ceiling [OF repD] by simp
  define F2 where "F2 = double_floor D1"
  have F2: "sign_bit F2 = neg \<and> is_finite F2 \<and> magnitude F2 = of_int \<bar>J\<bar>"
  proof (cases "is_zero D1")
    case True
    then have "K = 0" using D1(4) by simp
    then have "J = 0" by (simp add: J_def i_def)
    moreover have "F2 = D1" using True by (simp add: F2_def double_floor_def)
    ultimately show ?thesis using D1 \<open>K = 0\<close> by simp
  next
    case False
    have "F2 = round_to_double neg \<bar>of_int J\<bar>"
      unfolding F2_def double_floor_finite [OF D1(2) False] floorD D1(1) ..
    also have "\<bar>real_of_int J\<bar> = of_int \<bar>J\<bar>" by simp
    finally have "F2 = round_to_double neg (of_int \<bar>J\<bar>)" .
    then show ?thesis using round_to_double_exact [OF repJ, of neg] by simp
  qed
  have valF2: "valof F2 = of_int J" using F2 Jsign by (auto simp: valof_def)
  \<comment> \<open>\<^verbatim>\<open>max * std::floor(n / max)\<close>\<close>
  define P where "P = double_mul double_2_32 F2"
  have Peq: "P = round_to_double neg (2 ^ 32 * of_int \<bar>J\<bar>)"
    unfolding P_def using F2 double_mul_finite [OF double_constants(11), of F2]
    by (simp add: double_constants)
  have boundP: "2 ^ 32 * real_of_int \<bar>J\<bar> < 2 powi 1024"
  proof (rule representable_cases [OF repD])
    fix k :: nat
    assume eq: "real_of_int K / 2 ^ 32 = real k"
    have "real_of_int \<bar>J\<bar> = real k" unfolding absJ eq by simp
    then have "real_of_int \<bar>J\<bar> = real_of_int K / 2 ^ 32" by (simp only: eq)
    then have "2 ^ 32 * real_of_int \<bar>J\<bar> = of_int K" by simp
    then show ?thesis using representable_less [OF repK] by simp
  next
    assume "real_of_int K / 2 ^ 32 < 2 ^ 53"
    then have "\<lceil>real_of_int K / 2 ^ 32\<rceil> \<le> 2 ^ 53"
      by (simp add: ceiling_le_iff less_imp_le)
    moreover have "\<lfloor>real_of_int K / 2 ^ 32\<rfloor> \<le> \<lceil>real_of_int K / 2 ^ 32\<rceil>"
      by (rule floor_le_ceiling)
    ultimately have "\<bar>J\<bar> \<le> 2 ^ 53"
      unfolding absJi by (cases neg) simp_all
    then have "real_of_int \<bar>J\<bar> \<le> 2 ^ 53"
      by (metis of_int_le_iff of_int_numeral of_int_power)
    then have "2 ^ 32 * real_of_int \<bar>J\<bar> \<le> 2 ^ 32 * 2 ^ 53" by (simp only: mult_left_mono zero_le_numeral zero_le_power)
    also have "\<dots> < (2::real) powi 1024" by simp
    finally show ?thesis .
  qed
  have repP: "representable (2 ^ 32 * of_int \<bar>J\<bar>)"
    by (rule representable_mult_2_32 [OF repJ boundP])
  have P: "sign_bit P = neg" "is_finite P" "magnitude P = 2 ^ 32 * of_int \<bar>J\<bar>"
    unfolding Peq by (rule round_to_double_exact [OF repP])+
  have valP: "valof P = 2 ^ 32 * of_int J" using P Jsign by (auto simp: valof_def)
  \<comment> \<open>\<^verbatim>\<open>n - max * std::floor(n / max)\<close>\<close>
  define m where "m = i mod 2 ^ 32"
  have m: "0 \<le> m" "m < 2 ^ 32" by (simp_all add: m_def)
  have diff: "valof n1 - valof P = of_int m"
  proof -
    have "i = 2 ^ 32 * J + m" by (simp add: J_def m_def)
    then have "real_of_int i = 2 ^ 32 * real_of_int J + real_of_int m"
      by (metis of_int_add of_int_mult of_int_numeral of_int_power)
    then show ?thesis by (simp add: valn1 valP)
  qed
  define n2 where "n2 = double_sub n1 P"
  have n2: "is_finite n2 \<and> valof n2 = of_int m"
  proof (cases "m = 0")
    case True
    then have "n2 = make_double (sign_bit n1 \<and> \<not> sign_bit P) 0 0"
      unfolding n2_def double_sub_finite [OF n1(2) P(2)] diff by simp
    then show ?thesis
      using True
      by (simp add: is_finite_def make_double_fields valof_def magnitude_make_double_subnormal)
  next
    case False
    have mpos: "0 < real_of_int m" using False m(1) by simp
    have "n2 = round_to_double False (of_int m)"
      unfolding n2_def double_sub_finite [OF n1(2) P(2)] diff using mpos by simp
    moreover have "representable (of_int m)"
      using m by (intro representable_int) simp_all
    ultimately show ?thesis
      using round_to_double_exact [of "of_int m" False] by (simp add: valof_def)
  qed
  \<comment> \<open>the assertion and the cast\<close>
  have lt0: "\<not> double_less n2 double_zero"
    using n2 m(1) by (simp add: double_less_finite double_constants valof_def)
  have nan2: "\<not> isnan n2" using n2 finite_not_special by blast
  have ltmax: "double_less n2 double_2_32"
  proof -
    have "real_of_int m < 2 ^ 32" using m(2) by (metis of_int_less_iff of_int_numeral of_int_power)
    then show ?thesis using n2 by (simp add: double_less_finite double_constants valof_def)
  qed
  have fold: "double_sub (to_integer_inner n)
      (double_mul double_2_32 (double_floor (double_div (to_integer_inner n) double_2_32))) = n2"
    by (simp only: n2_def P_def F2_def D1_def n1_def c_def F1_def A_def to_integer_inner_def)
  have guards: "\<not> isnan n" "\<not> isinf n" "\<not> double_eq n double_zero"
    using fin nz finite_not_special [OF fin] by (simp_all add: double_eq_zero)
  have "to_uint32 n = Inr (word_of_int \<lfloor>valof n2\<rfloor>)"
    using guards lt0 nan2 ltmax by (simp add: to_uint32_def Let_def fold)
  also have "\<lfloor>valof n2\<rfloor> = m" using n2 by simp
  finally show ?thesis by (simp add: m_def i_def neg_def K_def)
qed

lemma to_uint32_special:
  "isnan n \<or> is_zero n \<or> isinf n \<Longrightarrow> to_uint32 n = Inr 0"
proof (cases "isnan n")
  case True
  then show ?thesis by (simp add: to_uint32_def)
next
  case False
  assume "isnan n \<or> is_zero n \<or> isinf n"
  with False show ?thesis by (auto simp: to_uint32_def double_eq_zero)
qed

lemma to_integer_value:
  assumes "is_finite n" and "\<not> is_zero n"
  shows "(if valof n < 0 then - 1 else 1) * \<lfloor>\<bar>valof n\<bar>\<rfloor> =
         (if sign_bit n then - \<lfloor>magnitude n\<rfloor> else \<lfloor>magnitude n\<rfloor>)"
proof -
  have "0 < magnitude n"
    using magnitude_nonneg [of n] magnitude_zero_iff [of n] assms(2) by (simp add: less_le)
  then show ?thesis by (simp add: valof_def)
qed

text \<open>
  Claim C4. For every double \<open>n\<close>, \<^verbatim>\<open>to_uint32\<close> returns (its assertion holds) a value
  in \<open>[0, 2^32)\<close>: 0 when \<open>n\<close> is a NaN, a zero or an infinity, and otherwise
  \<open>(sign(n) * floor(|n|)) mod 2^32\<close>, every floating-point operation of the function
  being exact on the way. In particular NaN gives 0, 4294967297.5 gives 1, and -1 gives
  4294967295.
\<close>

theorem to_uint32_modulo:
  "(\<exists>w. to_uint32 n = Inr w \<and>
        uint w = (if isnan n \<or> is_zero n \<or> isinf n then 0
                  else ((if valof n < 0 then - 1 else 1) * \<lfloor>\<bar>valof n\<bar>\<rfloor>) mod 2 ^ 32) \<and>
        0 \<le> uint w \<and> uint w < 2 ^ 32) \<and>
   to_uint32 0x7FF8000000000000 = Inr 0 \<and>
   to_uint32 0x41F0000000180000 = Inr 1 \<and>
   to_uint32 0xBFF0000000000000 = Inr 4294967295"
proof -
  have general: "\<exists>w. to_uint32 n = Inr w \<and>
        uint w = (if isnan n \<or> is_zero n \<or> isinf n then 0
                  else ((if valof n < 0 then - 1 else 1) * \<lfloor>\<bar>valof n\<bar>\<rfloor>) mod 2 ^ 32) \<and>
        0 \<le> uint w \<and> uint w < 2 ^ 32" for n
  proof (cases "isnan n \<or> is_zero n \<or> isinf n")
    case True
    then show ?thesis using to_uint32_special [of n] by simp
  next
    case False
    then have fin: "is_finite n" and nz: "\<not> is_zero n"
      using not_finite_iff [of n] by auto
    let ?i = "(if valof n < 0 then - 1 else 1) * \<lfloor>\<bar>valof n\<bar>\<rfloor>"
    have "to_uint32 n = Inr (word_of_int (?i mod 2 ^ 32))"
      unfolding to_integer_value [OF fin nz] by (rule to_uint32_finite [OF fin nz])
    moreover have "uint (word_of_int (?i mod 2 ^ 32) :: 32 word) = ?i mod 2 ^ 32"
      by (simp add: uint_word_of_int)
    moreover have "uint (word_of_int (?i mod 2 ^ 32) :: 32 word) < 2 ^ 32"
      using uint_bounded [of "word_of_int (?i mod 2 ^ 32) :: 32 word"] by simp
    ultimately show ?thesis using False by (intro exI [of _ "word_of_int (?i mod 2 ^ 32)"]) simp
  qed
  have nan: "to_uint32 0x7FF8000000000000 = Inr 0"
    by (rule to_uint32_special) (simp add: isnan_def biased_exponent_def fraction_def)
  have f1: "is_finite 0x41F0000000180000" "\<not> is_zero 0x41F0000000180000"
    "sign_bit 0x41F0000000180000 = False"
    "magnitude 0x41F0000000180000 = 8589934595 / 2"
    by (simp_all add: is_finite_def is_zero_def sign_bit_def magnitude_def biased_exponent_def
        fraction_def)
  have e1: "to_uint32 0x41F0000000180000 = Inr 1"
    unfolding to_uint32_finite [OF f1(1,2)] f1 by simp
  have f2: "is_finite 0xBFF0000000000000" "\<not> is_zero 0xBFF0000000000000"
    "sign_bit 0xBFF0000000000000 = True"
    "magnitude 0xBFF0000000000000 = 1"
    by (simp_all add: is_finite_def is_zero_def sign_bit_def magnitude_def biased_exponent_def
        fraction_def)
  have e2: "to_uint32 0xBFF0000000000000 = Inr 4294967295"
    unfolding to_uint32_finite [OF f2(1,2)] f2 by simp
  from general nan e1 e2 show ?thesis by (intro conjI)
qed

section \<open>Numbers to strings\<close>

lemma double_less_zero_sign: "double_less m double_zero \<Longrightarrow> sign_bit m"
proof -
  assume a: "double_less m double_zero"
  have z: "\<not> isinf double_zero" "valof double_zero = 0"
    using finite_not_special [OF double_constants(2)] by (simp_all add: valof_def double_constants)
  show ?thesis
  proof (cases "isinf m")
    case True
    with a show ?thesis by (simp add: double_less_def)
  next
    case False
    with a z have "valof m < 0" by (simp add: double_less_def)
    then show ?thesis using magnitude_nonneg [of m] by (simp add: valof_def split: if_splits)
  qed
qed

lemma sign_bit_double_neg: "sign_bit (double_neg m) = (\<not> sign_bit m)"
  by (simp add: double_neg_def make_double_same_fields)

termination to_string
  by (relation "measure (\<lambda>m. if sign_bit m then 1 else 0)")
     (auto simp: sign_bit_double_neg dest: double_less_zero_sign)

declare to_string.simps [simp del]

lemma double_less_zero_iff:
  "double_less m double_zero \<longleftrightarrow> sign_bit m \<and> \<not> isnan m \<and> \<not> is_zero m"
proof (cases "is_finite m")
  case True
  have "valof m < 0 \<longleftrightarrow> sign_bit m \<and> \<not> is_zero m"
    using magnitude_nonneg [of m] magnitude_zero_iff [of m] by (auto simp: valof_def)
  then show ?thesis
    using True finite_not_special [OF True]
    by (simp add: double_less_finite double_constants valof_def)
next
  case False
  then have "biased_exponent m = 2047"
    using biased_exponent_bound [of m] by (simp add: is_finite_def)
  then have nz: "\<not> is_zero m" by (simp add: is_zero_def)
  have z: "\<not> isinf double_zero" "\<not> isnan double_zero"
    using finite_not_special [OF double_constants(2)] by simp_all
  from False have "isnan m \<or> isinf m" by (simp add: not_finite_iff)
  then show ?thesis
  proof
    assume "isnan m"
    then show ?thesis by (simp add: double_less_def)
  next
    assume i: "isinf m"
    then have "\<not> isnan m" by (simp add: isinf_def isnan_def)
    with i z nz show ?thesis by (simp add: double_less_def)
  qed
qed

lemma to_string_nan: "isnan m \<Longrightarrow> to_string m = Inr ''NaN''"
  by (subst to_string.simps) simp

lemma to_string_zero: "is_zero m \<Longrightarrow> to_string m = Inr ''0''"
proof -
  assume z: "is_zero m"
  then have "\<not> isnan m" by (simp add: is_zero_def isnan_def)
  with z show ?thesis by (subst to_string.simps) (simp add: double_eq_zero)
qed

lemma to_string_negative:
  "double_less m double_zero \<Longrightarrow>
   to_string m = (case to_string (double_neg m) of Inl e \<Rightarrow> Inl e | Inr s \<Rightarrow> Inr (''-'' @ s))"
proof -
  assume a: "double_less m double_zero"
  then have "\<not> isnan m" "\<not> is_zero m" by (simp_all add: double_less_zero_iff)
  with a show ?thesis by (subst to_string.simps) (simp add: double_eq_zero)
qed

lemma to_string_nonnegative:
  assumes "\<not> isnan m" and "\<not> is_zero m" and "\<not> sign_bit m"
  shows "to_string m = (if isinf m then Inr ''Infinity'' else to_string_loop m 1)"
  using assms by (subst to_string.simps) (simp add: double_eq_zero double_less_zero_iff)

lemma to_string_infinity: "isinf m \<Longrightarrow> \<not> sign_bit m \<Longrightarrow> to_string m = Inr ''Infinity''"
  by (subst to_string_nonnegative) (simp_all add: isinf_def isnan_def is_zero_def)

lemma double_neg_fields:
  "biased_exponent (double_neg m) = biased_exponent m" "fraction (double_neg m) = fraction m"
  by (simp_all add: double_neg_def make_double_fields [OF biased_exponent_bound fraction_bound])

lemma to_string_minus_infinity:
  assumes "isinf m" and "sign_bit m"
  shows "to_string m = Inr ''-Infinity''"
proof -
  have n: "isinf (double_neg m)" "\<not> sign_bit (double_neg m)"
    using assms by (simp_all add: isinf_def double_neg_fields sign_bit_double_neg)
  have "double_less m double_zero"
    using assms by (simp add: double_less_zero_iff isinf_def isnan_def is_zero_def)
  then show ?thesis
    by (simp add: to_string_negative to_string_infinity [OF n])
qed

text \<open>The loop returns at the first \<open>k\<close> whose digits read back as \<open>m\<close>.\<close>

lemma to_string_loop_first:
  assumes "j \<le> k" and "k \<le> 17" and "stream_round_trip m k"
    and "\<forall>i. j \<le> i \<and> i < k \<longrightarrow> \<not> stream_round_trip m i"
  shows "to_string_loop m j = do_format_double m (int k)"
  using assms
proof (induction "k - j" arbitrary: j)
  case 0
  then have "j = k" by simp
  then show ?case using 0 by (subst to_string_loop.simps) simp
next
  case (Suc d)
  then have lt: "j < k" and d: "d = k - (j + 1)" and le: "j + 1 \<le> k" by simp_all
  have nrt: "\<not> stream_round_trip m j" using Suc.prems(4) lt by simp
  have rest: "\<forall>i. j + 1 \<le> i \<and> i < k \<longrightarrow> \<not> stream_round_trip m i"
    using Suc.prems(4) by simp
  have "to_string_loop m j = to_string_loop m (j + 1)"
    using nrt lt Suc.prems(2) by (subst to_string_loop.simps) simp
  also have "\<dots> = do_format_double m (int k)"
    by (rule Suc.hyps(1) [OF d le Suc.prems(2,3) rest])
  finally show ?case .
qed

lemma to_string_loop_none:
  assumes "\<forall>i. j \<le> i \<and> i \<le> 17 \<longrightarrow> \<not> stream_round_trip m i"
  shows "to_string_loop m j = Inl Assertion_Failed"
  using assms
proof (induction "18 - j" arbitrary: j)
  case 0
  then show ?case by (subst to_string_loop.simps) simp
next
  case (Suc d)
  then have "j \<le> 17" and d: "d = 18 - (j + 1)" by simp_all
  have "\<not> stream_round_trip m j" using Suc.prems \<open>j \<le> 17\<close> by simp
  then have "to_string_loop m j = to_string_loop m (j + 1)"
    using \<open>j \<le> 17\<close> by (subst to_string_loop.simps) simp
  also have "\<dots> = Inl Assertion_Failed"
    using Suc.prems by (intro Suc.hyps(1) [OF d]) simp
  finally show ?case .
qed

lemma do_format_double_cases:
  assumes "1 \<le> k" and "ecvt m (nat k) = Some (s, n, False)"
  shows "do_format_double m k =
     (if k \<le> n \<and> n \<le> 21 then Inr (s @ replicate (nat (n - k)) CHR ''0'')
      else if 0 < n \<and> n \<le> 21 then Inr (take (nat n) s @ ''.'' @ drop (nat n) s)
      else if - 6 < n \<and> n \<le> 0 then Inr (''0.'' @ replicate (nat (- n)) CHR ''0'' @ s)
      else if k = 1 then
        Inr (s @ ''e'' @ (if n - 1 \<ge> 0 then ''+'' else ''-'') @ decimal (nat \<bar>n - 1\<bar>))
      else Inr ([hd s] @ ''.'' @ tl s @ ''e'' @ (if n - 1 \<ge> 0 then ''+'' else ''-'') @
                decimal (nat \<bar>n - 1\<bar>)))"
  using assms by (simp add: do_format_double_def)

section \<open>The digits of the decimal conversion\<close>

lemma round_half_even_bounds:
  "real_of_int (round_half_even x) \<le> x + 1 / 2" "x - 1 / 2 \<le> real_of_int (round_half_even x)"
proof -
  have f: "real_of_int \<lfloor>x\<rfloor> \<le> x" "x < real_of_int \<lfloor>x\<rfloor> + 1" by linarith+
  show "real_of_int (round_half_even x) \<le> x + 1 / 2"
    unfolding round_half_even_def Let_def using f by (auto split: if_splits; linarith)
  show "x - 1 / 2 \<le> real_of_int (round_half_even x)"
    unfolding round_half_even_def Let_def using f by (auto split: if_splits; linarith)
qed

lemma length_decimal: "length (decimal n) = (if n = 0 then 1 else digits 10 n)"
proof (induction n rule: less_induct)
  case (less n)
  show ?case
  proof (cases "n < 10")
    case True
    then have "n div 10 = 0" by simp
    then have "digits 10 n = (if n = 0 then 0 else 1)"
      by (subst digits.simps) (simp add: digits.simps [of 10 0])
    then show ?thesis using True by (subst decimal.simps) simp
  next
    case False
    then have lt: "n div 10 < n" and pos: "n div 10 \<noteq> 0" by simp_all
    have "length (decimal n) = Suc (length (decimal (n div 10)))"
      using False by (subst decimal.simps) simp
    also have "\<dots> = Suc (digits 10 (n div 10))" using less.IH [OF lt] pos by simp
    also have "\<dots> = digits 10 n" using False by (subst (2) digits.simps) simp
    finally show ?thesis using False by simp
  qed
qed

lemma digits_unique:
  assumes "1 \<le> k" and "(10::nat) ^ (k - 1) \<le> D" and "D < 10 ^ k"
  shows "digits 10 D = k"
proof -
  have D: "0 < D" using assms(2) by (metis less_le_trans zero_less_numeral zero_less_power)
  from digits_bounds [of 10 D] D
  have b: "10 ^ (digits 10 D - 1) \<le> D" "D < 10 ^ digits 10 D" by simp_all
  have "(10::nat) ^ (digits 10 D - 1) < 10 ^ k" using b(1) assms(3) by (rule le_less_trans)
  then have 1: "digits 10 D - 1 < k" by (rule power_less_imp_less_exp [rotated]) simp
  have "(10::nat) ^ (k - 1) < 10 ^ digits 10 D" using assms(2) b(2) by (rule le_less_trans)
  then have 2: "k - 1 < digits 10 D" by (rule power_less_imp_less_exp [rotated]) simp
  from 1 2 assms(1) show ?thesis by simp
qed

lemma pow10_pos: "(0::real) < 10 powi a"
  by (simp add: power_int_def)

lemma decimal_round_range:
  assumes v: "0 < v" and k: "1 \<le> k" and dr: "decimal_round v k = (D, n)"
  shows "10 ^ (k - 1) \<le> D" and "D < 10 ^ k"
proof -
  define p where "p = ilog 10 v + 1"
  define x where "x = v * 10 powi (int k - p)"
  define r where "r = round_half_even x"
  have b: "10 powi (p - 1) \<le> v" "v < 10 powi p"
    using ilog_bounds [of 10 v] v by (simp_all add: p_def)
  have lo: "10 ^ (k - 1) \<le> x"
  proof -
    have "10 powi (p - 1) * 10 powi (int k - p) \<le> x"
      unfolding x_def using b(1) pow10_pos [of "int k - p"] by (simp only: mult_right_mono less_imp_le)
    moreover have "10 powi (p - 1) * 10 powi (int k - p) = (10::real) powi (p - 1 + (int k - p))"
      by (rule power_int_add [symmetric]) simp
    moreover have "p - 1 + (int k - p) = int (k - 1)" using k by simp
    ultimately show ?thesis by (simp only: power_int_of_nat)
  qed
  have hi: "x < 10 ^ k"
  proof -
    have "x < 10 powi p * 10 powi (int k - p)"
      unfolding x_def using b(2) pow10_pos [of "int k - p"] by (simp only: mult_strict_right_mono)
    moreover have "10 powi p * 10 powi (int k - p) = (10::real) powi (p + (int k - p))"
      by (rule power_int_add [symmetric]) simp
    moreover have "p + (int k - p) = int k" by simp
    ultimately show ?thesis by (simp only: power_int_of_nat)
  qed
  have rb: "real_of_int r \<le> x + 1 / 2" "x - 1 / 2 \<le> real_of_int r"
    unfolding r_def by (rule round_half_even_bounds)+
  have "real_of_int (10 ^ (k - 1)) - 1 / 2 \<le> real_of_int r" using lo rb(2) by simp
  then have "real_of_int (10 ^ (k - 1)) < real_of_int r + 1" by linarith
  then have "real_of_int (10 ^ (k - 1)) < real_of_int (r + 1)" by simp
  then have "10 ^ (k - 1) < r + 1" by (simp only: of_int_less_iff)
  then have rlo: "10 ^ (k - 1) \<le> r" by simp
  have "real_of_int r < real_of_int (10 ^ k) + 1 / 2" using hi rb(1) by simp
  then have "real_of_int r < real_of_int (10 ^ k + 1)" by simp
  then have "r < 10 ^ k + 1" by (simp only: of_int_less_iff)
  then have rhi: "r \<le> 10 ^ k" by simp
  have r0: "0 \<le> r" using rlo by (metis order_trans zero_le_numeral zero_le_power)
  have nlo: "10 ^ (k - 1) \<le> nat r"
    using rlo r0 by (metis nat_le_iff of_nat_numeral of_nat_power nat_int le_nat_iff)
  have nhi: "nat r \<le> 10 ^ k"
    using rhi r0 by (metis nat_le_iff of_nat_numeral of_nat_power)
  have "(if nat r = 10 ^ k then (10 ^ (k - 1), p + 1) else (nat r, p)) = (D, n)"
    using dr unfolding decimal_round_def Let_def p_def [symmetric] x_def [symmetric]
      r_def [symmetric] .
  then have res: "(D, n) = (if nat r = 10 ^ k then (10 ^ (k - 1), p + 1) else (nat r, p))"
    by (rule sym)
  show "10 ^ (k - 1) \<le> D"
    using res nlo by (simp split: if_splits)
  show "D < 10 ^ k"
  proof (cases "nat r = 10 ^ k")
    case True
    then have "D = 10 ^ (k - 1)" using res by simp
    then show ?thesis using k by (simp add: power_strict_increasing)
  next
    case False
    then show ?thesis using res nhi by simp
  qed
qed

lemma ecvt_length:
  assumes "ecvt m k = Some (s, n, sg)"
  shows "length s = k" and "sg = sign_bit m"
proof -
  from assms have fin: "is_finite m" and nz: "\<not> is_zero m" and k: "1 \<le> k"
    by (auto simp: ecvt_def split: if_splits)
  obtain D n' where dr: "decimal_round (magnitude m) k = (D, n')"
    by (cases "decimal_round (magnitude m) k") auto
  with assms fin nz k have s: "s = decimal D" and "sg = sign_bit m"
    by (simp_all add: ecvt_def)
  then show "sg = sign_bit m" by simp
  have pos: "0 < magnitude m"
    using magnitude_nonneg [of m] magnitude_zero_iff [of m] nz by (simp add: less_le)
  from decimal_round_range [OF pos k dr] have r: "10 ^ (k - 1) \<le> D" "D < 10 ^ k" .
  then have "D \<noteq> 0" by (metis not_less power_not_zero zero_neq_numeral le_zero_eq)
  then show "length s = k"
    using digits_unique [OF k r] by (simp add: s length_decimal)
qed

section \<open>Evaluation of the conversion on sample numbers\<close>

lemmas double_fields = is_finite_def is_zero_def sign_bit_def magnitude_def biased_exponent_def
  fraction_def isnan_def isinf_def

lemmas rounding_eval = round_to_double_def ilog_def digits.simps round_half_even_def Let_def
  make_double_def power_int_minus

lemma to_string_digits:
  assumes "is_finite m" and "\<not> is_zero m" and "\<not> sign_bit m"
    and "ecvt m k = Some (s, n, False)" and "stream_round_trip m k"
    and "k \<le> 17" and "\<forall>j. 1 \<le> j \<and> j < k \<longrightarrow> \<not> stream_round_trip m j"
  shows "to_string m =
     (if int k \<le> n \<and> n \<le> 21 then Inr (s @ replicate (nat (n - int k)) CHR ''0'')
      else if 0 < n \<and> n \<le> 21 then Inr (take (nat n) s @ ''.'' @ drop (nat n) s)
      else if - 6 < n \<and> n \<le> 0 then Inr (''0.'' @ replicate (nat (- n)) CHR ''0'' @ s)
      else if k = 1 then
        Inr (s @ ''e'' @ (if n - 1 \<ge> 0 then ''+'' else ''-'') @ decimal (nat \<bar>n - 1\<bar>))
      else Inr ([hd s] @ ''.'' @ tl s @ ''e'' @ (if n - 1 \<ge> 0 then ''+'' else ''-'') @
                decimal (nat \<bar>n - 1\<bar>)))"
proof -
  have k: "1 \<le> k" using assms(4) by (auto simp: ecvt_def split: if_splits)
  have e': "ecvt m (nat (int k)) = Some (s, n, False)" using assms(4) by simp
  have ns: "\<not> isnan m" "\<not> isinf m" using finite_not_special [OF assms(1)] by simp_all
  have "to_string m = to_string_loop m 1"
    using to_string_nonnegative [OF ns(1) assms(2,3)] ns(2) by simp
  also have "\<dots> = do_format_double m (int k)"
    by (rule to_string_loop_first [OF k assms(6,5,7)])
  finally have "to_string m = do_format_double m (int k)" .
  moreover have "1 \<le> int k" using k by simp
  note do_format_double_cases [OF this e']
  ultimately show ?thesis by simp
qed

lemma ecvt_total:
  assumes "is_finite m" and "\<not> is_zero m" and "\<not> sign_bit m" and "1 \<le> k"
  shows "\<exists>s n. ecvt m k = Some (s, n, False)"
proof -
  obtain D n where dr: "decimal_round (magnitude m) k = (D, n)"
    by (cases "decimal_round (magnitude m) k") auto
  then have "ecvt m k = Some (decimal D, n, False)"
    using assms by (simp add: ecvt_def)
  then show ?thesis by blast
qed

lemma first_digit_only: "\<forall>j::nat. 1 \<le> j \<and> j < 1 \<longrightarrow> P j"
  by simp

lemma first_two_digits: "P 1 \<Longrightarrow> \<forall>j::nat. 1 \<le> j \<and> j < 2 \<longrightarrow> P j"
proof (intro allI impI)
  fix j :: nat
  assume p: "P 1" and "1 \<le> j \<and> j < 2"
  then have "j = 1" by simp
  with p show "P j" by simp
qed

lemma to_string_one_digit:
  assumes "is_finite m" and "\<not> is_zero m" and "\<not> sign_bit m"
    and "ecvt m 1 = Some (s, n, False)" and "stream_round_trip m 1"
  shows "to_string m =
     (if 1 \<le> n \<and> n \<le> 21 then Inr (s @ replicate (nat (n - 1)) CHR ''0'')
      else if - 6 < n \<and> n \<le> 0 then Inr (''0.'' @ replicate (nat (- n)) CHR ''0'' @ s)
      else Inr (s @ ''e'' @ (if n - 1 \<ge> 0 then ''+'' else ''-'') @ decimal (nat \<bar>n - 1\<bar>)))"
proof -
  have "(1::nat) \<le> 17" by simp
  from to_string_digits [OF assms this first_digit_only] show ?thesis by auto
qed

text \<open>0.1\<close>

lemma tenth_fields:
  "is_finite 0x3FB999999999999A" "\<not> is_zero 0x3FB999999999999A"
  "\<not> sign_bit 0x3FB999999999999A"
  "magnitude 0x3FB999999999999A = 3602879701896397 / 36028797018963968"
  by (simp_all add: double_fields)

lemma tenth_ilog: "ilog 10 (3602879701896397 / 36028797018963968) = - 1"
  by (simp add: ilog_def digits.simps)

lemma tenth_round: "decimal_round (magnitude 0x3FB999999999999A) 1 = (1, 0)"
  unfolding tenth_fields decimal_round_def tenth_ilog by (simp add: round_half_even_def Let_def)

lemma tenth_read: "round_to_double False (1 / 10) = 0x3FB999999999999A"
  by (simp add: rounding_eval)

lemma tenth_round_trip: "stream_round_trip 0x3FB999999999999A 1"
  unfolding stream_round_trip_def tenth_round
  by (simp add: power_int_minus tenth_read double_eq_def double_fields)

lemma tenth_ecvt: "ecvt 0x3FB999999999999A 1 = Some (''1'', 0, False)"
  unfolding ecvt_def tenth_round using tenth_fields(1-3) by (simp add: decimal.simps digit_char_def)

lemma to_string_tenth: "to_string 0x3FB999999999999A = Inr ''0.1''"
  unfolding to_string_one_digit [OF tenth_fields(1-3) tenth_ecvt tenth_round_trip] by simp

text \<open>1e21\<close>

lemma e21_fields:
  "is_finite 0x444B1AE4D6E2EF50" "\<not> is_zero 0x444B1AE4D6E2EF50"
  "\<not> sign_bit 0x444B1AE4D6E2EF50"
  "magnitude 0x444B1AE4D6E2EF50 = 1000000000000000000000"
  by (simp_all add: double_fields)

lemma e21_ilog: "ilog 10 1000000000000000000000 = 21"
  by (simp add: ilog_def digits.simps)

lemma e21_round: "decimal_round (magnitude 0x444B1AE4D6E2EF50) 1 = (1, 22)"
  unfolding e21_fields decimal_round_def e21_ilog by (simp add: round_half_even_def Let_def power_int_minus)

lemma e21_read: "round_to_double False 1000000000000000000000 = 0x444B1AE4D6E2EF50"
  by (simp add: rounding_eval)

lemma e21_round_trip: "stream_round_trip 0x444B1AE4D6E2EF50 1"
  unfolding stream_round_trip_def e21_round
  by (simp add: e21_read double_eq_def double_fields)

lemma e21_ecvt: "ecvt 0x444B1AE4D6E2EF50 1 = Some (''1'', 22, False)"
  unfolding ecvt_def e21_round using e21_fields(1-3) by (simp add: decimal.simps digit_char_def)

lemma to_string_e21: "to_string 0x444B1AE4D6E2EF50 = Inr ''1e+21''"
  unfolding to_string_one_digit [OF e21_fields(1-3) e21_ecvt e21_round_trip]
  by (simp add: decimal.simps digit_char_def)

end
